theory Spec2Isabelle
  imports Main "HOL-Library.Word"
begin

unbundle bit_operations_syntax

section \<open>The update command (src/update.c)\<close>

subsection \<open>Option identifiers and the descriptor table\<close>

text \<open>
  The anonymous enum of update.c: the option keys start at \<open>FIRST_VALUE\<close> and are
  consecutive, \<open>LAST_VALUE\<close> is one past the last key.
\<close>

definition FIRST_VALUE :: int where "FIRST_VALUE = 1000"
definition BLKIO_WEIGHT :: int where "BLKIO_WEIGHT = 1000"
definition CPU_PERIOD :: int where "CPU_PERIOD = 1001"
definition CPU_QUOTA :: int where "CPU_QUOTA = 1002"
definition CPU_SHARE :: int where "CPU_SHARE = 1003"
definition CPU_RT_PERIOD :: int where "CPU_RT_PERIOD = 1004"
definition CPU_RT_RUNTIME :: int where "CPU_RT_RUNTIME = 1005"
definition CPUSET_CPUS :: int where "CPUSET_CPUS = 1006"
definition CPUSET_MEMS :: int where "CPUSET_MEMS = 1007"
definition KERNEL_MEMORY :: int where "KERNEL_MEMORY = 1008"
definition KERNEL_MEMORY_TCP :: int where "KERNEL_MEMORY_TCP = 1009"
definition MEMORY :: int where "MEMORY = 1010"
definition MEMORY_RESERVATION :: int where "MEMORY_RESERVATION = 1011"
definition MEMORY_SWAP :: int where "MEMORY_SWAP = 1012"
definition PIDS_LIMIT :: int where "PIDS_LIMIT = 1013"
definition LAST_VALUE :: int where "LAST_VALUE = 1014"

text \<open>
  \<open>struct description_s\<close>, its fields prefixed with \<open>d_\<close>. The field
  \<open>numeric\<close> is a C \<open>int\<close> used as a truth value.
\<close>

record description_s =
  d_id :: int
  d_section :: nat
  d_key :: string
  d_numeric :: int

definition sections :: "string list" where
  "sections = [''blockIO'', ''cpu'', ''memory'', ''pids'']"

definition n_sections :: nat where
  "n_sections = 4"

definition descr :: "int \<Rightarrow> nat \<Rightarrow> string \<Rightarrow> int \<Rightarrow> description_s" where
  "descr i s k n = \<lparr>d_id = i, d_section = s, d_key = k, d_numeric = n\<rparr>"

text \<open>
  The table \<open>descriptors\<close>, in declaration order. The source ends the array with a
  zero entry at index \<open>LAST_VALUE - FIRST_VALUE\<close>; every loop of \<open>build_file\<close> stops
  before that index, so the entry is never read and is left out here.
\<close>

definition descriptors :: "description_s list" where
  "descriptors =
    [descr BLKIO_WEIGHT 0 ''weight'' 1,
     descr CPU_PERIOD 1 ''period'' 1,
     descr CPU_QUOTA 1 ''quota'' 1,
     descr CPU_SHARE 1 ''share'' 1,
     descr CPU_RT_PERIOD 1 ''realtimePeriod'' 1,
     descr CPU_RT_RUNTIME 1 ''realtimeRuntime'' 1,
     descr CPUSET_CPUS 1 ''cpus'' 0,
     descr CPUSET_MEMS 1 ''mems'' 0,
     descr KERNEL_MEMORY 2 ''kernel'' 1,
     descr KERNEL_MEMORY_TCP 2 ''kernelTCP'' 1,
     descr MEMORY 2 ''limit'' 1,
     descr MEMORY_RESERVATION 2 ''reservation'' 1,
     descr MEMORY_SWAP 2 ''swap'' 1,
     descr PIDS_LIMIT 3 ''limit'' 1]"

text \<open>
  The table \<open>options\<close> handed to argp: long option name and key. The key of
  \<open>--resources\<close> is the character \<open>r\<close>, that is 114.
\<close>

definition KEY_r :: int where "KEY_r = 114"

definition options :: "(string \<times> int) list" where
  "options =
    [(''resources'', KEY_r),
     (''blkio-weight'', BLKIO_WEIGHT),
     (''cpu-period'', CPU_PERIOD),
     (''cpu-quota'', CPU_QUOTA),
     (''cpu-share'', CPU_SHARE),
     (''cpu-rt-period'', CPU_RT_PERIOD),
     (''cpu-rt-runtime'', CPU_RT_RUNTIME),
     (''cpuset-cpus'', CPUSET_CPUS),
     (''cpuset-mems'', CPUSET_MEMS),
     (''kernel-memory'', KERNEL_MEMORY),
     (''kernel-memory-tcp'', KERNEL_MEMORY_TCP),
     (''memory'', MEMORY),
     (''memory-reservation'', MEMORY_RESERVATION),
     (''memory-swap'', MEMORY_SWAP),
     (''pids-limit'', PIDS_LIMIT)]"

subsection \<open>The static state: \<open>resources\<close> and \<open>values\<close>\<close>

text \<open>
  \<open>values\<close> is a static array of \<open>LAST_VALUE - FIRST_VALUE\<close> string pointers and
  \<open>resources\<close> a static string pointer; a null pointer is \<open>None\<close>. Both start
  out null. The array is the field \<open>vals\<close> of the state.
\<close>

record update_state =
  resources :: "string option"
  vals :: "string option list"

definition n_values :: nat where
  "n_values = nat (LAST_VALUE - FIRST_VALUE)"

definition initial_state :: update_state where
  "initial_state = \<lparr>resources = None, vals = replicate n_values None\<rparr>"

text \<open>
  \<open>set_value\<close> stores at index \<open>id - FIRST_VALUE\<close>. The only caller passes one of
  the fourteen option keys; for any other id the C store is out of bounds, and the
  model leaves the array alone there.
\<close>

definition set_value :: "int \<Rightarrow> string \<Rightarrow> string option list \<Rightarrow> string option list" where
  "set_value i v vs =
     (if FIRST_VALUE \<le> i \<and> i < LAST_VALUE then vs[nat (i - FIRST_VALUE) := Some v] else vs)"

subsection \<open>Ways the process ends early\<close>

text \<open>
  \<open>Failure e m\<close> is \<open>error (EXIT_FAILURE, e, m)\<close> and
  \<open>libcrun_fail_with_error (e, m)\<close>: the message is printed and the process exits
  with a failure status. \<open>Usage\<close> is the exit taken by argp for an option it does not
  know and by \<open>crun_assert_n_args\<close> for a wrong number of arguments.
\<close>

datatype failure = Failure int string | Usage

definition ERANGE :: int where "ERANGE = 34"

subsection \<open>strtoul\<close>

text \<open>
  \<open>strtoul (s, NULL, 10)\<close> of the C library where \<open>long\<close> has 64 bits, called
  with \<open>errno = 0\<close>: leading white space is skipped, one sign is accepted, the longest
  run of decimal digits is converted and whatever follows is ignored. Without any digit
  the result is 0 and \<open>errno\<close> stays 0, as the C standard has it and glibc does; a
  value above \<open>ULONG_MAX\<close> gives \<open>ULONG_MAX\<close> and \<open>ERANGE\<close>; a minus sign
  negates the result in the unsigned type. The pair returned is the value and
  \<open>errno\<close> after the call.
\<close>

definition isspace :: "char \<Rightarrow> bool" where
  "isspace c = (c \<in> set [CHR '' '', CHR 0x09, CHR 0x0A, CHR 0x0B, CHR 0x0C, CHR 0x0D])"

definition isdigit :: "char \<Rightarrow> bool" where
  "isdigit c = ((48::int) \<le> of_char c \<and> of_char c \<le> (57::int))"

definition digit_val :: "char \<Rightarrow> int" where
  "digit_val c = of_char c - 48"

definition digits_val :: "string \<Rightarrow> int" where
  "digits_val ds = foldl (\<lambda>a c. 10 * a + digit_val c) 0 ds"

text \<open>\<open>ULONG_MAX\<close> is \<open>2 ^ 64 - 1\<close>.\<close>

definition ULONG_MAX :: int where
  "ULONG_MAX = 18446744073709551615"

definition strip_sign :: "string \<Rightarrow> bool \<times> string" where
  "strip_sign s =
     (case s of
        [] \<Rightarrow> (False, [])
      | c # r \<Rightarrow> if c = CHR ''-'' then (True, r) else if c = CHR ''+'' then (False, r) else (False, s))"

definition strtoul :: "string \<Rightarrow> 64 word \<times> int" where
  "strtoul s =
     (let (neg, u) = strip_sign (dropWhile isspace s);
          ds = takeWhile isdigit u;
          n = digits_val ds
      in if ds = [] then (0, 0)
         else if ULONG_MAX < n then (word_of_int ULONG_MAX, ERANGE)
         else if neg then (- word_of_int n, 0)
         else (word_of_int n, 0))"

subsection \<open>The yajl generator\<close>

text \<open>
  \<open>build_file\<close> drives a generator of the yajl library. The generator keeps one
  state per open level and a buffer of what it has printed. The buffer is recorded
  here as the list of the tokens printed; the separators and the white space, which
  the generator derives from its state, are left out.
\<close>

datatype yajl_gen_state =
    yajl_gen_start
  | yajl_gen_map_start
  | yajl_gen_map_key
  | yajl_gen_map_val
  | yajl_gen_array_start
  | yajl_gen_in_array
  | yajl_gen_complete
  | yajl_gen_error

datatype token = Tok_map_open | Tok_map_close | Tok_string string | Tok_integer int

text \<open>
  \<open>gen_state\<close> lists the states of the open levels, the innermost first: its head
  is \<open>state[depth]\<close> of the library.
\<close>

record yajl_gen =
  gen_state :: "yajl_gen_state list"
  gen_buf :: "token list"

definition yajl_gen_new :: yajl_gen where
  "yajl_gen_new = \<lparr>gen_state = [yajl_gen_start], gen_buf = []\<rparr>"

text \<open>
  \<open>yajl_string_validate_utf8\<close>: a byte up to \<open>0x7f\<close> stands alone; a lead byte
  \<open>110xxxxx\<close>, \<open>1110xxxx\<close> or \<open>11110xxx\<close> is followed by one, two or three
  continuation bytes \<open>10xxxxxx\<close>; anything else is refused.
\<close>

definition continuation :: "char \<Rightarrow> bool" where
  "continuation c = ((of_char c :: int) div 64 = 2)"

fun yajl_string_validate_utf8 :: "string \<Rightarrow> bool" where
  "yajl_string_validate_utf8 [] = True"
| "yajl_string_validate_utf8 (c # cs) =
     (let b = (of_char c :: int) in
      if b \<le> 0x7f then yajl_string_validate_utf8 cs
      else if b div 32 = 6 then
        (case cs of
           c1 # r \<Rightarrow> continuation c1 \<and> yajl_string_validate_utf8 r
         | _ \<Rightarrow> False)
      else if b div 16 = 0x0e then
        (case cs of
           c1 # c2 # r \<Rightarrow> continuation c1 \<and> continuation c2 \<and> yajl_string_validate_utf8 r
         | _ \<Rightarrow> False)
      else if b div 8 = 0x1e then
        (case cs of
           c1 # c2 # c3 # r \<Rightarrow>
             continuation c1 \<and> continuation c2 \<and> continuation c3 \<and> yajl_string_validate_utf8 r
         | _ \<Rightarrow> False)
      else False)"

text \<open>
  The macro \<open>APPENDED_ATOM\<close>: the state of a level after a value or a key has been
  printed in it.
\<close>

fun appended_atom :: "yajl_gen_state \<Rightarrow> yajl_gen_state" where
  "appended_atom yajl_gen_start = yajl_gen_complete"
| "appended_atom yajl_gen_map_start = yajl_gen_map_val"
| "appended_atom yajl_gen_map_key = yajl_gen_map_val"
| "appended_atom yajl_gen_array_start = yajl_gen_in_array"
| "appended_atom yajl_gen_map_val = yajl_gen_map_key"
| "appended_atom s = s"

text \<open>
  The generator calls of \<open>build_file\<close>. Each returns a status, which
  \<open>build_file\<close> never reads, so only the generator after the call is kept. A call
  that returns an error leaves the generator as it was: \<open>ENSURE_VALID_STATE\<close>
  refuses the states \<open>yajl_gen_error\<close> and \<open>yajl_gen_complete\<close>,
  \<open>ENSURE_NOT_KEY\<close> refuses a number or a map where a key is due, and
  \<open>yajl_gen_string\<close>, with \<open>yajl_gen_validate_utf8\<close> set as \<open>build_file\<close>
  sets it, refuses a string that is not valid UTF-8 before anything else. The depth
  limit of the library, 128 levels, is out of reach of \<open>build_file\<close>, which opens
  two.
\<close>

definition yajl_gen_string :: "yajl_gen \<Rightarrow> string \<Rightarrow> yajl_gen" where
  "yajl_gen_string g str =
     (if \<not> yajl_string_validate_utf8 str then g
      else
        (case gen_state g of
           [] \<Rightarrow> g
         | s # rest \<Rightarrow>
             if s = yajl_gen_error \<or> s = yajl_gen_complete then g
             else g\<lparr>gen_state := appended_atom s # rest, gen_buf := gen_buf g @ [Tok_string str]\<rparr>))"

definition yajl_gen_integer :: "yajl_gen \<Rightarrow> int \<Rightarrow> yajl_gen" where
  "yajl_gen_integer g number =
     (case gen_state g of
        [] \<Rightarrow> g
      | s # rest \<Rightarrow>
          if s = yajl_gen_error \<or> s = yajl_gen_complete then g
          else if s = yajl_gen_map_key \<or> s = yajl_gen_map_start then g
          else g\<lparr>gen_state := appended_atom s # rest, gen_buf := gen_buf g @ [Tok_integer number]\<rparr>)"

definition yajl_gen_map_open :: "yajl_gen \<Rightarrow> yajl_gen" where
  "yajl_gen_map_open g =
     (case gen_state g of
        [] \<Rightarrow> g
      | s # rest \<Rightarrow>
          if s = yajl_gen_error \<or> s = yajl_gen_complete then g
          else if s = yajl_gen_map_key \<or> s = yajl_gen_map_start then g
          else g\<lparr>gen_state := yajl_gen_map_start # s # rest, gen_buf := gen_buf g @ [Tok_map_open]\<rparr>)"

text \<open>
  \<open>yajl_gen_map_close\<close> leaves the innermost level and then applies
  \<open>APPENDED_ATOM\<close> to the level it returns to.
\<close>

definition yajl_gen_map_close :: "yajl_gen \<Rightarrow> yajl_gen" where
  "yajl_gen_map_close g =
     (case gen_state g of
        s # s' # rest \<Rightarrow>
          if s = yajl_gen_error \<or> s = yajl_gen_complete then g
          else g\<lparr>gen_state := appended_atom s' # rest, gen_buf := gen_buf g @ [Tok_map_close]\<rparr>
      | _ \<Rightarrow> g)"

subsection \<open>The generated document\<close>

text \<open>
  The two loops that fill \<open>has_sections\<close>. The second loop of the source runs over
  the first \<open>n_sections\<close> indices only and repeats what the first did.
\<close>

definition mark_sections :: "string option list \<Rightarrow> nat list \<Rightarrow> int list \<Rightarrow> int list" where
  "mark_sections vs is hs =
     foldl (\<lambda>h i. if vs ! i \<noteq> None then h[d_section (descriptors ! i) := 1] else h) hs is"

definition has_sections :: "string option list \<Rightarrow> int list" where
  "has_sections vs =
     mark_sections vs [0..<n_sections] (mark_sections vs [0..<n_values] (replicate n_sections 0))"

text \<open>
  The inner loop over \<open>j\<close> for section \<open>i\<close>: the key of each set field of the
  section, then its value. A numeric value is read by \<open>strtoul\<close> into a \<open>long\<close>;
  a nonzero \<open>errno\<close> ends the process on the spot.
\<close>

fun gen_fields :: "string option list \<Rightarrow> nat \<Rightarrow> nat list \<Rightarrow> yajl_gen \<Rightarrow> failure + yajl_gen" where
  "gen_fields vs i [] gen = Inr gen"
| "gen_fields vs i (j # js) gen =
     (let d = descriptors ! j in
      case vs ! j of
        None \<Rightarrow> gen_fields vs i js gen
      | Some v \<Rightarrow>
          if d_section d \<noteq> i then gen_fields vs i js gen
          else
            (let gen1 = yajl_gen_string gen (d_key d) in
             if d_numeric d = 0 then gen_fields vs i js (yajl_gen_string gen1 v)
             else
               (case strtoul v of
                  (value, errno) \<Rightarrow>
                    if errno \<noteq> 0 then Inl (Failure errno ''invalid setting'')
                    else gen_fields vs i js (yajl_gen_integer gen1 (sint value)))))"

text \<open>
  The outer loop over the sections: for a section that has a set field, its name, a
  map with its fields, and the end of the map.
\<close>

fun gen_sections :: "string option list \<Rightarrow> int list \<Rightarrow> nat list \<Rightarrow> yajl_gen \<Rightarrow> failure + yajl_gen" where
  "gen_sections vs hs [] gen = Inr gen"
| "gen_sections vs hs (i # is) gen =
     (if hs ! i = 0 then gen_sections vs hs is gen
      else
        (let gen1 = yajl_gen_string gen (sections ! i);
             gen2 = yajl_gen_map_open gen1
         in case gen_fields vs i [0..<n_values] gen2 of
              Inl e \<Rightarrow> Inl e
            | Inr gen3 \<Rightarrow> gen_sections vs hs is (yajl_gen_map_close gen3)))"

text \<open>
  \<open>build_file\<close>. Its first argument is the outcome of \<open>yajl_gen_alloc\<close>: \<open>None\<close>
  when a generator was returned, \<open>Some e\<close> when it returned null with \<open>errno = e\<close>.
  The result is the buffer of the generator, which is what \<open>yajl_gen_get_buf\<close>
  hands out.
\<close>

definition build_file :: "int option \<Rightarrow> string option list \<Rightarrow> failure + token list" where
  "build_file alloc vs =
     (case alloc of
        Some e \<Rightarrow> Inl (Failure e ''yajl_gen_alloc failed'')
      | None \<Rightarrow>
          (case gen_sections vs (has_sections vs) [0..<n_sections] (yajl_gen_map_open yajl_gen_new) of
             Inl e \<Rightarrow> Inl e
           | Inr gen \<Rightarrow> Inr (gen_buf (yajl_gen_map_close gen))))"

subsection \<open>Option parsing\<close>

definition ARGP_KEY_NO_ARGS :: int where "ARGP_KEY_NO_ARGS = 0x1000002"
definition ARGP_ERR_UNKNOWN :: int where "ARGP_ERR_UNKNOWN = 7"

text \<open>
  \<open>parse_opt\<close>, called by argp once per option with the option's key and argument.
  Every option of the table takes a mandatory argument, so \<open>arg\<close> is a string.
  The result is the returned \<open>error_t\<close> with the new state, or the exit taken.
\<close>

definition parse_opt :: "int \<Rightarrow> string \<Rightarrow> update_state \<Rightarrow> failure + (int \<times> update_state)" where
  "parse_opt key arg st =
     (if key = KEY_r then Inr (0, st\<lparr>resources := Some arg\<rparr>)
      else if key = ARGP_KEY_NO_ARGS then
        Inl (Failure 0 ''please specify a ID for the container'')
      else if key \<in> set [BLKIO_WEIGHT, CPU_PERIOD, CPU_QUOTA, CPU_SHARE, CPU_RT_PERIOD,
                         CPU_RT_RUNTIME, CPUSET_CPUS, CPUSET_MEMS, KERNEL_MEMORY,
                         KERNEL_MEMORY_TCP, MEMORY, MEMORY_RESERVATION, MEMORY_SWAP, PIDS_LIMIT]
      then Inr (0, st\<lparr>vals := set_value key arg (vals st)\<rparr>)
      else Inr (ARGP_ERR_UNKNOWN, st))"

text \<open>
  The part of \<open>argp_parse\<close> that matters here: with \<open>ARGP_IN_ORDER\<close> the options
  in front of the first plain argument are handed to \<open>parse_opt\<close> one by one, in the
  order of the command line; an option whose key the parser answers with
  \<open>ARGP_ERR_UNKNOWN\<close> ends the process with a usage error.
\<close>

fun parse_opts :: "(int \<times> string) list \<Rightarrow> update_state \<Rightarrow> failure + update_state" where
  "parse_opts [] st = Inr st"
| "parse_opts ((key, arg) # rest) st =
     (case parse_opt key arg st of
        Inl e \<Rightarrow> Inl e
      | Inr (r, st') \<Rightarrow> if r = 0 then parse_opts rest st' else Inl Usage)"

text \<open>
  When the command line has no plain argument at all, argp calls the parser with
  \<open>ARGP_KEY_NO_ARGS\<close>.
\<close>

definition argp_parse :: "(int \<times> string) list \<Rightarrow> string list \<Rightarrow> failure + update_state" where
  "argp_parse opts args =
     (case parse_opts opts initial_state of
        Inl e \<Rightarrow> Inl e
      | Inr st \<Rightarrow>
          if args = [] then
            (case parse_opt ARGP_KEY_NO_ARGS [] st of
               Inl e \<Rightarrow> Inl e
             | Inr (r, st') \<Rightarrow> Inr st')
          else Inr st)"

subsection \<open>The command\<close>

text \<open>
  What one run of \<open>crun_command_update\<close> ends in: an early exit, a returned error
  code of \<open>init_libcrun_context\<close>, or the one call into libcrun whose result it
  returns. \<open>libcrun_container_update\<close> receives the container id and the generated
  document, \<open>libcrun_container_update_from_file\<close> the id and the path given to
  \<open>--resources\<close>.
\<close>

datatype action =
    Exit failure
  | Return int
  | Libcrun_container_update string "token list"
  | Libcrun_container_update_from_file string string

text \<open>
  The environment of one run: the outcome of \<open>yajl_gen_alloc\<close> and the value
  returned by \<open>init_libcrun_context\<close>.
\<close>

record update_env =
  gen_alloc :: "int option"
  init_ret :: int

text \<open>The body of \<open>crun_command_update\<close> after \<open>argp_parse\<close>.\<close>

definition update_body :: "update_env \<Rightarrow> update_state \<Rightarrow> string list \<Rightarrow> action" where
  "update_body env st args =
     (if length args \<noteq> 1 then Exit Usage
      else if init_ret env < 0 then Return (init_ret env)
      else
        (case resources st of
           None \<Rightarrow>
             (case build_file (gen_alloc env) (vals st) of
                Inl e \<Rightarrow> Exit e
              | Inr content \<Rightarrow> Libcrun_container_update (hd args) content)
         | Some path \<Rightarrow> Libcrun_container_update_from_file (hd args) path))"

definition crun_command_update ::
  "update_env \<Rightarrow> (int \<times> string) list \<Rightarrow> string list \<Rightarrow> action" where
  "crun_command_update env opts args =
     (case argp_parse opts args of
        Inl e \<Rightarrow> Exit e
      | Inr st \<Rightarrow> update_body env st args)"

text \<open>An environment in which the generator is allocated and the context initialised.\<close>

definition env_ok :: update_env where
  "env_ok = \<lparr>gen_alloc = None, init_ret = 0\<rparr>"

subsection \<open>The canonical document, in the words of the specification\<close>

text \<open>
  A JSON document as a tree, and the tokens the generator prints for one: a map is
  opened, each key is followed by its value, and the map is closed.
\<close>

datatype json = JInteger int | JString string | JMap "(string \<times> json) list"

primrec json_tokens :: "json \<Rightarrow> token list" where
  "json_tokens (JInteger n) = [Tok_integer n]"
| "json_tokens (JString s) = [Tok_string s]"
| "json_tokens (JMap ps) =
     Tok_map_open #
     concat (map (\<lambda>(k, ts). Tok_string k # ts) (map (map_prod id json_tokens) ps)) @
     [Tok_map_close]"

text \<open>
  The document the specification describes for an assignment of option values: only
  the sections that have a set field, in the order of \<open>sections\<close>; in each, only
  the set fields of that section, in the order of \<open>descriptors\<close>; a numeric field as
  a number, any other field as the string given.
\<close>

definition render :: "description_s \<Rightarrow> string \<Rightarrow> json" where
  "render d v = (if d_numeric d = 0 then JString v else JInteger (sint (fst (strtoul v))))"

definition set_fields :: "string option list \<Rightarrow> nat \<Rightarrow> nat list" where
  "set_fields vs s =
     filter (\<lambda>j. vs ! j \<noteq> None \<and> d_section (descriptors ! j) = s) [0..<n_values]"

definition canonical_section :: "string option list \<Rightarrow> nat \<Rightarrow> (string \<times> json) list" where
  "canonical_section vs s =
     map (\<lambda>j. (d_key (descriptors ! j), render (descriptors ! j) (the (vs ! j))))
       (set_fields vs s)"

definition canonical_document :: "string option list \<Rightarrow> json" where
  "canonical_document vs =
     JMap (map (\<lambda>s. (sections ! s, JMap (canonical_section vs s)))
            (filter (\<lambda>s. set_fields vs s \<noteq> []) [0..<n_sections]))"

text \<open>
  A field passes \<open>build_file\<close> when it is unset, not numeric, or \<open>strtoul\<close> leaves
  \<open>errno\<close> at 0 on its value.
\<close>

definition field_ok :: "string option list \<Rightarrow> nat \<Rightarrow> bool" where
  "field_ok vs j =
     (case vs ! j of
        None \<Rightarrow> True
      | Some v \<Rightarrow> d_numeric (descriptors ! j) = 0 \<or> snd (strtoul v) = 0)"

text \<open>
  A field is printable when it is unset, numeric, or its value is valid UTF-8, which
  is what the generator asks of a string. \<open>utf8_ok\<close>: every field of the assignment
  is printable.
\<close>

definition printable :: "string option list \<Rightarrow> nat \<Rightarrow> bool" where
  "printable vs j =
     (case vs ! j of
        None \<Rightarrow> True
      | Some v \<Rightarrow> d_numeric (descriptors ! j) \<noteq> 0 \<or> yajl_string_validate_utf8 v)"

definition utf8_ok :: "string option list \<Rightarrow> bool" where
  "utf8_ok vs = list_all (printable vs) [0..<n_values]"

text \<open>The tokens of one set field: its key, then its value.\<close>

definition field_tokens :: "string option list \<Rightarrow> nat \<Rightarrow> token list" where
  "field_tokens vs j =
     Tok_string (d_key (descriptors ! j)) # json_tokens (render (descriptors ! j) (the (vs ! j)))"









section \<open>The resource document of the specification\<close>

text \<open>
  Modelled from the spec: the Document, which the sources at hand only know as the
  array \<open>values\<close> of option strings. It has one optional field per descriptor, a
  numeric field holding an unsigned integer and a cpuset field a string.
\<close>

datatype field_value = Number nat | CpuList string

type_synonym document = "field_value option list"

definition field_fits :: "field_value option \<Rightarrow> description_s \<Rightarrow> bool" where
  "field_fits x d =
     (case x of
        None \<Rightarrow> True
      | Some (Number n) \<Rightarrow> d_numeric d \<noteq> 0
      | Some (CpuList s) \<Rightarrow> d_numeric d = 0)"

definition well_formed :: "document \<Rightarrow> bool" where
  "well_formed d = list_all2 field_fits d descriptors"

definition empty_document :: document where
  "empty_document = replicate n_values None"

text \<open>
  Modelled from the spec: how a field of a Document is written as the argument of its
  option, a number in base 10 without sign or leading zero, a cpuset list as it is.
\<close>

definition digit_char :: "nat \<Rightarrow> char" where
  "digit_char d = char_of (d + 48)"

fun decimal :: "nat \<Rightarrow> string" where
  "decimal n = (if 10 \<le> n then decimal (n div 10) @ [digit_char (n mod 10)] else [digit_char n])"

declare decimal.simps [simp del]

definition option_string :: "field_value \<Rightarrow> string" where
  "option_string x = (case x of Number n \<Rightarrow> decimal n | CpuList s \<Rightarrow> s)"

definition option_values :: "document \<Rightarrow> string option list" where
  "option_values d = map (map_option option_string) d"

text \<open>
  \<open>serialize\<close> of a Document built from options is what \<open>build_file\<close> generates
  from the option values, with a generator at hand.
\<close>

definition serialize :: "document \<Rightarrow> failure + token list" where
  "serialize d = build_file None (option_values d)"

text \<open>
  Documents whose cpuset lists are valid UTF-8, Documents whose numbers all lie below
  \<open>2 ^ 63\<close>, Documents with a number above \<open>ULONG_MAX\<close>, and two Documents: one with a cpuset list and a memory limit of
  512, one whose memory limit is \<open>2 ^ 64\<close>, which is more than \<open>strtoul\<close> can
  return.
\<close>

definition utf8_document :: "document \<Rightarrow> bool" where
  "utf8_document d =
     list_all (\<lambda>x. case x of Some (CpuList s) \<Rightarrow> yajl_string_validate_utf8 s | _ \<Rightarrow> True) d"

definition below_2_63 :: "document \<Rightarrow> bool" where
  "below_2_63 d =
     list_all (\<lambda>x. case x of Some (Number n) \<Rightarrow> n < 9223372036854775808 | _ \<Rightarrow> True) d"

definition above_ULONG_MAX :: "document \<Rightarrow> bool" where
  "above_ULONG_MAX d =
     list_ex (\<lambda>x. case x of Some (Number n) \<Rightarrow> 18446744073709551615 < n | _ \<Rightarrow> False) d"

definition doc_small :: document where
  "doc_small =
     [None, None, None, None, None, None, Some (CpuList ''0-3''), None,
      None, None, Some (Number 512), None, None, None]"

definition doc_too_big :: document where
  "doc_too_big =
     [None, None, None, None, None, None, None, None,
      None, None, Some (Number 18446744073709551616), None, None, None]"

text \<open>
  Modelled from the spec: the parser of the canonical update document, which lives in
  libcrun and is not part of the sources at hand. The document is a top-level map with
  the optional keys of \<open>sections\<close>; each is a map with the optional field keys of
  that section; a numeric field holds an unsigned integer and a cpuset field a string.
  Anything else under a known key is a parse error.
\<close>

datatype parse_error = ParseError

text \<open>
  Modelled from the spec: reading the tokens of a document of that shape into a tree.
  The reader is at the start, in the top-level map with the sections read so far, or
  in the map of a section with the fields read so far. A key without a value, a
  value without a key, a map inside a section and anything after the end of the
  top-level map make the document unreadable.
\<close>

datatype reader =
    Reader_start
  | Reader_root "(string \<times> json) list"
  | Reader_section "(string \<times> json) list" string "(string \<times> json) list"

fun read_tokens :: "reader \<Rightarrow> token list \<Rightarrow> json option" where
  "read_tokens Reader_start (Tok_map_open # ts) = read_tokens (Reader_root []) ts"
| "read_tokens (Reader_root ss) [Tok_map_close] = Some (JMap ss)"
| "read_tokens (Reader_root ss) (Tok_string k # Tok_map_open # ts) =
     read_tokens (Reader_section ss k []) ts"
| "read_tokens (Reader_section ss k fs) (Tok_map_close # ts) =
     read_tokens (Reader_root (ss @ [(k, JMap fs)])) ts"
| "read_tokens (Reader_section ss k fs) (Tok_string f # Tok_integer n # ts) =
     read_tokens (Reader_section ss k (fs @ [(f, JInteger n)])) ts"
| "read_tokens (Reader_section ss k fs) (Tok_string f # Tok_string s # ts) =
     read_tokens (Reader_section ss k (fs @ [(f, JString s)])) ts"
| "read_tokens r ts = None"

text \<open>Modelled from the spec: one field of the Document, looked up in the tree read.\<close>

definition parse_field :: "(string \<times> json) list \<Rightarrow> nat \<Rightarrow> parse_error + field_value option" where
  "parse_field root j =
     (let d = descriptors ! j in
      case map_of root (sections ! d_section d) of
        None \<Rightarrow> Inr None
      | Some (JMap fs) \<Rightarrow>
          (case map_of fs (d_key d) of
             None \<Rightarrow> Inr None
           | Some (JInteger n) \<Rightarrow>
               if d_numeric d \<noteq> 0 \<and> 0 \<le> n then Inr (Some (Number (nat n))) else Inl ParseError
           | Some (JString s) \<Rightarrow>
               if d_numeric d = 0 then Inr (Some (CpuList s)) else Inl ParseError
           | Some (JMap m) \<Rightarrow> Inl ParseError)
      | Some (JInteger n) \<Rightarrow> Inl ParseError
      | Some (JString s) \<Rightarrow> Inl ParseError)"

text \<open>
  Modelled from the spec: the fields are read one after the other, in descriptor
  order, and the first parse error is the result.
\<close>

fun parse_fields :: "(string \<times> json) list \<Rightarrow> nat list \<Rightarrow> parse_error + document" where
  "parse_fields root [] = Inr []"
| "parse_fields root (j # js) =
     (case parse_field root j of
        Inl e \<Rightarrow> Inl e
      | Inr x \<Rightarrow>
          (case parse_fields root js of
             Inl e \<Rightarrow> Inl e
           | Inr xs \<Rightarrow> Inr (x # xs)))"

text \<open>
  Modelled from the spec: \<open>parse\<close> of a serialized document, which has to read as a
  map at the top.
\<close>

definition parse :: "token list \<Rightarrow> parse_error + document" where
  "parse doc =
     (case read_tokens Reader_start doc of
        None \<Rightarrow> Inl ParseError
      | Some (JMap root) \<Rightarrow> parse_fields root [0..<n_values]
      | Some (JInteger n) \<Rightarrow> Inl ParseError
      | Some (JString s) \<Rightarrow> Inl ParseError)"

text \<open>
  Modelled from the spec: the write plan and the reconciliation engine, which live in
  libcrun and are not part of the sources at hand. A ControllerWrite is a (path, value)
  pair. The plan translates the present fields of the Document, in descriptor order,
  into the writes of the backend; the translation of one field is the backend's and is
  a parameter here. \<open>update\<close> resolves the target, fails with \<open>ContainerNotFound\<close>
  when there is none, and applies the plan in order; the first write that fails stops
  the run, and the result names the writes that succeeded, the one that failed with its
  errno, and the ones never attempted.
\<close>

type_synonym ControllerWrite = "string \<times> string"

datatype result =
    Success
  | ContainerNotFound
  | PartialUpdate "ControllerWrite list" ControllerWrite int "ControllerWrite list"

definition plan :: "(nat \<Rightarrow> field_value \<Rightarrow> ControllerWrite list) \<Rightarrow> document \<Rightarrow> ControllerWrite list" where
  "plan backend d =
     concat (map (\<lambda>j. case d ! j of None \<Rightarrow> [] | Some x \<Rightarrow> backend j x) [0..<n_values])"

text \<open>
  Modelled from the spec: the writes are applied in plan order; \<open>ap\<close> is the
  backend's \<open>apply\<close> and answers \<open>None\<close> for success or the errno of the failed
  write.
\<close>

fun apply_writes ::
  "(ControllerWrite \<Rightarrow> int option) \<Rightarrow> ControllerWrite list \<Rightarrow> ControllerWrite list \<Rightarrow> result" where
  "apply_writes ap succeeded [] = Success"
| "apply_writes ap succeeded (w # ws) =
     (case ap w of
        None \<Rightarrow> apply_writes ap (succeeded @ [w]) ws
      | Some errno \<Rightarrow> PartialUpdate succeeded w errno ws)"

text \<open>
  Modelled from the spec: \<open>update\<close> for a target that was resolved (\<open>Some\<close>) or
  whose cgroup no longer exists (\<open>None\<close>).
\<close>

definition update ::
  "('t \<Rightarrow> nat \<Rightarrow> field_value \<Rightarrow> ControllerWrite list) \<Rightarrow> (ControllerWrite \<Rightarrow> int option) \<Rightarrow>
   't option \<Rightarrow> document \<Rightarrow> result" where
  "update backend ap target d =
     (case target of
        None \<Rightarrow> ContainerNotFound
      | Some t \<Rightarrow> apply_writes ap [] (plan (backend t) d))"

section \<open>The seccomp-listener probe (tests/init.c)\<close>

text \<open>
  The branch of \<open>main\<close> taken for \<open>check-feature seccomp-listener\<close>. The system
  calls are the environment's: what each returns is a field of \<open>probe_env\<close>.
  \<open>waitpid_rets\<close> lists what the successive calls of \<open>waitpid\<close> return, as
  (return value, \<open>errno\<close>); \<open>child_signal\<close> is \<open>Some sig\<close> when the child is
  killed by a signal instead of returning from \<open>main\<close>.
\<close>

record probe_env =
  have_seccomp :: bool
  fork_ret :: int
  prctl_ret :: int
  seccomp_ret :: int
  waitpid_rets :: "(int \<times> int) list"
  child_signal :: "int option"

text \<open>
  What is taken for granted of the environment: \<open>fork\<close> returns 0 in the child
  only, never in the process that called it, and a signal number lies between 1 and
  127.
\<close>

definition probe_env_ok :: "probe_env \<Rightarrow> bool" where
  "probe_env_ok env =
     (fork_ret env \<noteq> 0 \<and>
      (case child_signal env of None \<Rightarrow> True | Some sig \<Rightarrow> 0 < sig \<and> sig < 128))"

definition EINTR :: int where "EINTR = 4"
definition ECHILD :: int where "ECHILD = 10"
definition PR_SET_NO_NEW_PRIVS :: int where "PR_SET_NO_NEW_PRIVS = 38"
definition SECCOMP_SET_MODE_FILTER :: int where "SECCOMP_SET_MODE_FILTER = 1"
definition SECCOMP_FILTER_FLAG_NEW_LISTENER :: int where
  "SECCOMP_FILTER_FLAG_NEW_LISTENER = push_bit 3 1"

text \<open>
  The filter program of the probe: \<open>len = 1\<close> and the eight bytes of \<open>bpf\<close>, one
  \<open>struct sock_filter\<close> (16-bit \<open>code\<close>, 8-bit \<open>jt\<close> and \<open>jf\<close>, 32-bit \<open>k\<close>) as
  it lies in memory on a little-endian machine.
\<close>

definition bpf :: "8 word list" where
  "bpf = [0x06, 0x00, 0x00, 0x00, 0x00, 0x00, 0xff, 0x7f]"

definition filter_code :: "8 word list \<Rightarrow> nat" where
  "filter_code b = unat (b ! 0) + 256 * unat (b ! 1)"

definition filter_k :: "8 word list \<Rightarrow> nat" where
  "filter_k b = unat (b ! 4) + 256 * unat (b ! 5) + 65536 * unat (b ! 6) + 16777216 * unat (b ! 7)"

definition BPF_RET :: nat where "BPF_RET = 0x06"
definition SECCOMP_RET_ALLOW :: nat where "SECCOMP_RET_ALLOW = 0x7fff0000"

text \<open>The system calls a process makes, with their arguments.\<close>

datatype syscall =
    Prctl int int int int int
  | Seccomp int int nat "8 word list"

text \<open>
  The child (\<open>p = 0\<close>): the value it returns from \<open>main\<close> and the system calls it
  has made, in order.
\<close>

definition listener_child :: "probe_env \<Rightarrow> int \<times> syscall list" where
  "listener_child env =
     (if prctl_ret env < 0 then (1, [Prctl PR_SET_NO_NEW_PRIVS 1 0 0 0])
      else
        (let ret = seccomp_ret env;
             calls = [Prctl PR_SET_NO_NEW_PRIVS 1 0 0 0,
                      Seccomp SECCOMP_SET_MODE_FILTER SECCOMP_FILTER_FLAG_NEW_LISTENER 1 bpf]
         in if ret \<le> 0 then (1, calls) else (0, calls)))"

text \<open>
  The status word \<open>waitpid\<close> stores for the child: the exit code in bits 8 to 15
  after a normal exit, the signal number in the low seven bits after a kill.
\<close>

definition child_status :: "probe_env \<Rightarrow> int" where
  "child_status env =
     (case child_signal env of
        None \<Rightarrow> push_bit 8 (fst (listener_child env) AND 0xff)
      | Some sig \<Rightarrow> sig AND 0x7f)"

definition WIFEXITED :: "int \<Rightarrow> bool" where
  "WIFEXITED status = (status AND 0x7f = 0)"

definition WEXITSTATUS :: "int \<Rightarrow> int" where
  "WEXITSTATUS status = drop_bit 8 (status AND 0xff00)"

text \<open>
  The loop \<open>do ret = waitpid (p, &status, 0); while (ret < 0 && errno == EINTR)\<close>
  over the returns the environment has in store. \<open>None\<close>: every call was
  interrupted and the loop has not ended.
\<close>

fun waitpid_loop :: "(int \<times> int) list \<Rightarrow> (int \<times> int) option" where
  "waitpid_loop [] = None"
| "waitpid_loop ((ret, errno) # rest) =
     (if ret < 0 \<and> errno = EINTR then waitpid_loop rest else Some (ret, errno))"

text \<open>
  The probe: the value returned from \<open>main\<close> by the process that was started, which
  is the process's exit status. \<open>None\<close>: the process is still waiting.
\<close>

definition check_feature_seccomp_listener :: "probe_env \<Rightarrow> int option" where
  "check_feature_seccomp_listener env =
     (if \<not> have_seccomp env then Some 1
      else
        (let p = fork_ret env in
         if p < 0 then Some 1
         else if p \<noteq> 0 then
           (case waitpid_loop (waitpid_rets env) of
              None \<Rightarrow> None
            | Some (ret, errno) \<Rightarrow>
                if ret = p \<and> WIFEXITED (child_status env) \<and> WEXITSTATUS (child_status env) = 0
                then Some 0 else Some 1)
         else Some (fst (listener_child env))))"

text \<open>
  An environment with seccomp compiled in, where the child installs the filter and gets
  descriptor 3, and \<open>waitpid\<close> in the parent fails with \<open>ECHILD\<close>, as it does when
  the probe is started with \<open>SIGCHLD\<close> ignored.
\<close>

definition env_wait_fails :: probe_env where
  "env_wait_fails =
     \<lparr>have_seccomp = True, fork_ret = 100, prctl_ret = 0, seccomp_ret = 3,
      waitpid_rets = [(-1, ECHILD)], child_signal = None\<rparr>"

text \<open>
  An environment in which the install succeeds and the descriptor of the listener is
  0, as it is when the probe is started with standard input closed.
\<close>

definition env_descriptor_0 :: probe_env where
  "env_descriptor_0 =
     \<lparr>have_seccomp = True, fork_ret = 100, prctl_ret = 0, seccomp_ret = 0,
      waitpid_rets = [(100, 0)], child_signal = None\<rparr>"

text \<open>An environment where everything succeeds, after one interrupted \<open>waitpid\<close>.\<close>

definition env_supported :: probe_env where
  "env_supported =
     \<lparr>have_seccomp = True, fork_ret = 100, prctl_ret = 0, seccomp_ret = 3,
      waitpid_rets = [(-1, EINTR), (100, 0)], child_signal = None\<rparr>"

section \<open>The spec command (src/spec.c)\<close>

text \<open>
  The file system as far as the command touches it: a map from paths to contents.
  What the command ends in: an early exit, the value returned, or the error made by
  \<open>crun_make_error\<close> with its message.
\<close>

type_synonym fs = "string \<Rightarrow> string option"

datatype outcome = Exited failure | Returned int | Made_error int string

text \<open>
  The environment of one run. \<open>crun_path_exists\<close> is a helper of libcrun that is not
  part of the sources at hand and is a parameter here; \<open>fopen_ok\<close> tells whether
  \<open>fopen\<close> returns a stream; \<open>container_spec\<close> is what
  \<open>libcrun_container_spec\<close> writes to the stream and the value it returns.
\<close>

record spec_env =
  crun_path_exists :: "fs \<Rightarrow> string \<Rightarrow> int"
  fopen_ok :: bool
  container_spec :: "string \<times> int"

text \<open>
  \<open>parse_opt\<close> of spec.c answers every key with \<open>ARGP_ERR_UNKNOWN\<close>, so any
  option ends the run with a usage error, and so does any plain argument
  (\<open>crun_assert_n_args\<close> with bounds 0 and 0). \<open>fopen\<close> with mode \<open>w+\<close> creates
  the file or empties an existing one.
\<close>

definition spec_parse_opt :: "int \<Rightarrow> string \<Rightarrow> int" where
  "spec_parse_opt key arg = ARGP_ERR_UNKNOWN"

definition crun_command_spec ::
  "spec_env \<Rightarrow> (int \<times> string) list \<Rightarrow> string list \<Rightarrow> fs \<Rightarrow> outcome \<times> fs" where
  "crun_command_spec env opts args files =
     (if \<exists>(key, arg)\<in>set opts. spec_parse_opt key arg \<noteq> 0 then (Exited Usage, files)
      else if length args \<noteq> 0 then (Exited Usage, files)
      else
        (let ret = crun_path_exists env files ''config.json'' in
         if ret < 0 then (Returned ret, files)
         else if ret \<noteq> 0 then (Made_error 0 ''config.json already exists'', files)
         else if \<not> fopen_ok env then (Made_error 0 ''cannot open config.json'', files)
         else
           (let files' = files(''config.json'' \<mapsto> []);
                (content, r) = container_spec env
            in (Returned (if r \<ge> 0 then 0 else r), files'(''config.json'' \<mapsto> content)))))"

text \<open>An existence test that answers from the file system, and two file systems.\<close>

definition path_exists_stat :: "fs \<Rightarrow> string \<Rightarrow> int" where
  "path_exists_stat files p = (if files p = None then 0 else 1)"

definition spec_env_ok :: spec_env where
  "spec_env_ok =
     \<lparr>crun_path_exists = path_exists_stat, fopen_ok = True, container_spec = (''{}'', 0)\<rparr>"

definition fs_with_config :: fs where
  "fs_with_config = [''config.json'' \<mapsto> ''old'']"

section \<open>Properties of the update command\<close>

subsection \<open>What \<open>build_file\<close> generates\<close>

lemmas option_ids =
  FIRST_VALUE_def BLKIO_WEIGHT_def CPU_PERIOD_def CPU_QUOTA_def CPU_SHARE_def
  CPU_RT_PERIOD_def CPU_RT_RUNTIME_def CPUSET_CPUS_def CPUSET_MEMS_def KERNEL_MEMORY_def
  KERNEL_MEMORY_TCP_def MEMORY_def MEMORY_RESERVATION_def MEMORY_SWAP_def PIDS_LIMIT_def
  LAST_VALUE_def

lemma n_values_14: "n_values = 14"
  by (simp add: n_values_def option_ids)

lemma length_descriptors: "length descriptors = 14"
  by (simp add: descriptors_def)

lemma strtoul_errno: "snd (strtoul v) = 0 \<or> snd (strtoul v) = ERANGE"
  by (simp add: strtoul_def Let_def split: prod.splits)

lemma keys_valid_utf8:
  assumes "j < n_values"
  shows "yajl_string_validate_utf8 (d_key (descriptors ! j))"
proof -
  have "list_all (\<lambda>d. yajl_string_validate_utf8 (d_key d)) descriptors" by code_simp
  then show ?thesis using assms by (simp add: list_all_length length_descriptors n_values_14)
qed

lemma sections_valid_utf8:
  assumes "s < n_sections"
  shows "yajl_string_validate_utf8 (sections ! s)"
proof -
  have "list_all yajl_string_validate_utf8 sections" by code_simp
  then show ?thesis using assms by (simp add: list_all_length sections_def n_sections_def)
qed

lemma utf8_ok_nth: "utf8_ok vs \<Longrightarrow> j < n_values \<Longrightarrow> printable vs j"
  by (simp add: utf8_ok_def list_all_iff)

text \<open>
  Whether \<open>build_file\<close> ends in the exit does not depend on the generator: it exits
  on the first set numeric field on which \<open>strtoul\<close> reports an error.
\<close>

lemma gen_fields_fails:
  "\<not> (\<forall>j\<in>set js. d_section (descriptors ! j) = i \<longrightarrow> field_ok vs j) \<Longrightarrow>
   gen_fields vs i js gen = Inl (Failure ERANGE ''invalid setting'')"
proof (induction js arbitrary: gen)
  case Nil
  then show ?case by simp
next
  case (Cons j js)
  show ?case
  proof (cases "d_section (descriptors ! j) = i \<longrightarrow> field_ok vs j")
    case True
    then have rest: "\<not> (\<forall>j\<in>set js. d_section (descriptors ! j) = i \<longrightarrow> field_ok vs j)"
      using Cons.prems by simp
    show ?thesis
      using True Cons.IH [OF rest]
      by (auto simp add: Let_def field_ok_def split: option.splits prod.splits)
  next
    case False
    then obtain v where v: "vs ! j = Some v" and sec: "d_section (descriptors ! j) = i"
      and num: "d_numeric (descriptors ! j) \<noteq> 0" and err: "snd (strtoul v) \<noteq> 0"
      by (auto simp add: field_ok_def split: option.splits)
    obtain w e where st: "strtoul v = (w, e)" by (cases "strtoul v")
    have "e = ERANGE" using strtoul_errno [of v] st err by simp
    then show ?thesis using v sec num st err by (simp add: Let_def)
  qed
qed

lemma gen_fields_succeeds:
  "\<forall>j\<in>set js. d_section (descriptors ! j) = i \<longrightarrow> field_ok vs j \<Longrightarrow>
   \<exists>gen'. gen_fields vs i js gen = Inr gen'"
proof (induction js arbitrary: gen)
  case Nil
  then show ?case by simp
next
  case (Cons j js)
  then have rest: "\<forall>j\<in>set js. d_section (descriptors ! j) = i \<longrightarrow> field_ok vs j"
    and this_one: "d_section (descriptors ! j) = i \<longrightarrow> field_ok vs j"
    by simp_all
  show ?case
    using this_one Cons.IH [OF rest]
    by (auto simp add: Let_def field_ok_def split: option.splits prod.splits)
qed

lemma gen_sections_fails:
  "\<not> (\<forall>i\<in>set is. hs ! i \<noteq> 0 \<longrightarrow>
        (\<forall>j<n_values. d_section (descriptors ! j) = i \<longrightarrow> field_ok vs j)) \<Longrightarrow>
   gen_sections vs hs is gen = Inl (Failure ERANGE ''invalid setting'')"
proof (induction "is" arbitrary: gen)
  case Nil
  then show ?case by simp
next
  case (Cons i "is")
  show ?case
  proof (cases "hs ! i \<noteq> 0 \<longrightarrow>
        (\<forall>j<n_values. d_section (descriptors ! j) = i \<longrightarrow> field_ok vs j)")
    case True
    then have rest: "\<not> (\<forall>i\<in>set is. hs ! i \<noteq> 0 \<longrightarrow>
        (\<forall>j<n_values. d_section (descriptors ! j) = i \<longrightarrow> field_ok vs j))"
      using Cons.prems by simp
    show ?thesis
    proof (cases "hs ! i = 0")
      case True
      then show ?thesis using Cons.IH [OF rest] by simp
    next
      case False
      with True have "\<forall>j\<in>set [0..<n_values]. d_section (descriptors ! j) = i \<longrightarrow> field_ok vs j"
        by simp
      from gen_fields_succeeds [of "[0..<n_values]" i vs, OF this] obtain gen' where
        "gen_fields vs i [0..<n_values]
           (yajl_gen_map_open (yajl_gen_string gen (sections ! i))) = Inr gen'"
        by blast
      then show ?thesis using False Cons.IH [OF rest] by (simp add: Let_def)
    qed
  next
    case False
    then have h: "hs ! i \<noteq> 0"
      and "\<not> (\<forall>j\<in>set [0..<n_values]. d_section (descriptors ! j) = i \<longrightarrow> field_ok vs j)"
      by auto
    from gen_fields_fails [of "[0..<n_values]" i vs, OF this(2)] show ?thesis
      using h by (simp add: Let_def)
  qed
qed

lemma gen_sections_succeeds:
  "\<forall>i\<in>set is. hs ! i \<noteq> 0 \<longrightarrow>
        (\<forall>j<n_values. d_section (descriptors ! j) = i \<longrightarrow> field_ok vs j) \<Longrightarrow>
   \<exists>gen'. gen_sections vs hs is gen = Inr gen'"
proof (induction "is" arbitrary: gen)
  case Nil
  then show ?case by simp
next
  case (Cons i "is")
  then have rest: "\<forall>i\<in>set is. hs ! i \<noteq> 0 \<longrightarrow>
        (\<forall>j<n_values. d_section (descriptors ! j) = i \<longrightarrow> field_ok vs j)"
    by simp
  show ?case
  proof (cases "hs ! i = 0")
    case True
    then show ?thesis using Cons.IH [OF rest] by simp
  next
    case False
    with Cons.prems
    have "\<forall>j\<in>set [0..<n_values]. d_section (descriptors ! j) = i \<longrightarrow> field_ok vs j"
      by simp
    from gen_fields_succeeds [of "[0..<n_values]" i vs, OF this] obtain gen' where
      "gen_fields vs i [0..<n_values]
         (yajl_gen_map_open (yajl_gen_string gen (sections ! i))) = Inr gen'"
      by blast
    then show ?thesis using False Cons.IH [OF rest] by (simp add: Let_def)
  qed
qed

lemma length_mark_sections: "length (mark_sections vs is hs) = length hs"
  unfolding mark_sections_def
  by (induction "is" arbitrary: hs) simp_all

lemma mark_sections_nth:
  "s < length hs \<Longrightarrow>
   (mark_sections vs is hs ! s \<noteq> 0) =
     (hs ! s \<noteq> 0 \<or> (\<exists>i\<in>set is. vs ! i \<noteq> None \<and> d_section (descriptors ! i) = s))"
  unfolding mark_sections_def
proof (induction "is" arbitrary: hs)
  case Nil
  then show ?case by simp
next
  case (Cons i "is")
  let ?hs = "if vs ! i \<noteq> None then hs[d_section (descriptors ! i) := 1] else hs"
  have len: "s < length ?hs" using Cons.prems by simp
  have step: "(?hs ! s \<noteq> 0) =
              (hs ! s \<noteq> 0 \<or> (vs ! i \<noteq> None \<and> d_section (descriptors ! i) = s))"
    using Cons.prems by (cases "d_section (descriptors ! i) = s") auto
  show ?case
    using Cons.IH [OF len] step by auto
qed

lemma has_sections_nth:
  "s < n_sections \<Longrightarrow> (has_sections vs ! s \<noteq> 0) = (set_fields vs s \<noteq> [])"
proof -
  assume s: "s < n_sections"
  have sub: "set [0..<n_sections] \<subseteq> set [0..<n_values]"
    by (simp add: n_sections_def n_values_14)
  have "(has_sections vs ! s \<noteq> 0) =
        (\<exists>i\<in>set [0..<n_values]. vs ! i \<noteq> None \<and> d_section (descriptors ! i) = s)"
    unfolding has_sections_def using s sub
    by (subst mark_sections_nth, simp add: length_mark_sections, subst mark_sections_nth, simp, auto)
  then show ?thesis
    by (auto simp add: set_fields_def filter_empty_conv)
qed

lemma descriptors_section_lt: "j < n_values \<Longrightarrow> d_section (descriptors ! j) < n_sections"
proof -
  have "\<forall>j<14. d_section (descriptors ! j) < 4"
    by (simp add: descriptors_def descr_def All_less_Suc2 numeral_nat)
  then show "j < n_values \<Longrightarrow> d_section (descriptors ! j) < n_sections"
    by (simp add: n_values_14 n_sections_def)
qed

lemma section_condition:
  "(\<forall>i\<in>set [0..<n_sections]. has_sections vs ! i \<noteq> 0 \<longrightarrow>
       (\<forall>j<n_values. d_section (descriptors ! j) = i \<longrightarrow> field_ok vs j)) =
   (\<forall>j<n_values. field_ok vs j)"
proof
  assume a: "\<forall>i\<in>set [0..<n_sections]. has_sections vs ! i \<noteq> 0 \<longrightarrow>
       (\<forall>j<n_values. d_section (descriptors ! j) = i \<longrightarrow> field_ok vs j)"
  show "\<forall>j<n_values. field_ok vs j"
  proof (intro allI impI)
    fix j assume j: "j < n_values"
    show "field_ok vs j"
    proof (cases "vs ! j")
      case None
      then show ?thesis by (simp add: field_ok_def)
    next
      case (Some v)
      let ?s = "d_section (descriptors ! j)"
      have s: "?s < n_sections" using j by (rule descriptors_section_lt)
      have "j \<in> set (set_fields vs ?s)" using j Some by (simp add: set_fields_def)
      then have "set_fields vs ?s \<noteq> []" by auto
      then have "has_sections vs ! ?s \<noteq> 0" using s by (simp add: has_sections_nth)
      then show ?thesis using a s j by auto
    qed
  qed
next
  assume "\<forall>j<n_values. field_ok vs j"
  then show "\<forall>i\<in>set [0..<n_sections]. has_sections vs ! i \<noteq> 0 \<longrightarrow>
       (\<forall>j<n_values. d_section (descriptors ! j) = i \<longrightarrow> field_ok vs j)"
    by simp
qed

lemma build_file_fails:
  assumes "\<not> (\<forall>j<n_values. field_ok vs j)"
  shows "build_file None vs = Inl (Failure ERANGE ''invalid setting'')"
proof -
  have "\<not> (\<forall>i\<in>set [0..<n_sections]. has_sections vs ! i \<noteq> 0 \<longrightarrow>
       (\<forall>j<n_values. d_section (descriptors ! j) = i \<longrightarrow> field_ok vs j))"
    using assms by (simp only: section_condition not_False_eq_True)
  from gen_sections_fails [OF this] show ?thesis by (simp add: build_file_def)
qed

lemma build_file_succeeds:
  assumes "\<forall>j<n_values. field_ok vs j"
  shows "\<exists>doc. build_file None vs = Inr doc"
proof -
  have "\<forall>i\<in>set [0..<n_sections]. has_sections vs ! i \<noteq> 0 \<longrightarrow>
       (\<forall>j<n_values. d_section (descriptors ! j) = i \<longrightarrow> field_ok vs j)"
    using assms by (simp only: section_condition)
  from gen_sections_succeeds [OF this, of "yajl_gen_map_open yajl_gen_new"] show ?thesis
    by (auto simp add: build_file_def)
qed



text \<open>
  With printable values every call of the generator prints: the tokens generated are
  those of the canonical document.
\<close>

lemma json_tokens_JMap:
  "json_tokens (JMap ps) =
     Tok_map_open # concat (map (\<lambda>p. Tok_string (fst p) # json_tokens (snd p)) ps) @ [Tok_map_close]"
  by (simp add: comp_def case_prod_beta)

lemma yajl_gen_map_close_fields:
  assumes "t = yajl_gen_map_start \<or> t = yajl_gen_map_key"
  shows "yajl_gen_map_close \<lparr>gen_state = t # u # rest, gen_buf = c\<rparr> =
         \<lparr>gen_state = appended_atom u # rest, gen_buf = c @ [Tok_map_close]\<rparr>"
  using assms by (auto simp add: yajl_gen_map_close_def)

lemma gen_fields_canonical:
  assumes "s = yajl_gen_map_start \<or> s = yajl_gen_map_key"
    and "\<forall>j\<in>set js. j < n_values \<and> field_ok vs j \<and> printable vs j"
  shows "gen_fields vs i js \<lparr>gen_state = s # rest, gen_buf = b\<rparr> =
           Inr \<lparr>gen_state =
                  (if filter (\<lambda>j. vs ! j \<noteq> None \<and> d_section (descriptors ! j) = i) js = []
                   then s else yajl_gen_map_key) # rest,
                gen_buf =
                  b @ concat (map (field_tokens vs)
                        (filter (\<lambda>j. vs ! j \<noteq> None \<and> d_section (descriptors ! j) = i) js))\<rparr>"
  using assms
proof (induction js arbitrary: s b)
  case Nil
  then show ?case by simp
next
  case (Cons j js)
  have rest: "\<forall>j\<in>set js. j < n_values \<and> field_ok vs j \<and> printable vs j"
    using Cons.prems(2) by simp
  have j: "j < n_values" "field_ok vs j" "printable vs j" using Cons.prems(2) by simp_all
  have key: "yajl_string_validate_utf8 (d_key (descriptors ! j))"
    using j(1) by (rule keys_valid_utf8)
  show ?case
  proof (cases "vs ! j \<noteq> None \<and> d_section (descriptors ! j) = i")
    case False
    then show ?thesis
      using Cons.IH [OF Cons.prems(1) rest] by (auto simp add: Let_def split: option.splits)
  next
    case True
    then obtain v where v: "vs ! j = Some v" and sec: "d_section (descriptors ! j) = i" by auto
    have mk: "yajl_gen_map_key = yajl_gen_map_start \<or> yajl_gen_map_key = yajl_gen_map_key"
      by simp
    note ih = Cons.IH [OF mk rest]
    have g1: "yajl_gen_string \<lparr>gen_state = s # rest, gen_buf = b\<rparr> (d_key (descriptors ! j)) =
              \<lparr>gen_state = yajl_gen_map_val # rest,
               gen_buf = b @ [Tok_string (d_key (descriptors ! j))]\<rparr>"
      using Cons.prems(1) key by (auto simp add: yajl_gen_string_def)
    show ?thesis
    proof (cases "d_numeric (descriptors ! j) = 0")
      case True
      then have valid: "yajl_string_validate_utf8 v" using j(3) v by (simp add: printable_def)
      have g2: "yajl_gen_string \<lparr>gen_state = yajl_gen_map_val # rest,
                   gen_buf = b @ [Tok_string (d_key (descriptors ! j))]\<rparr> v =
                \<lparr>gen_state = yajl_gen_map_key # rest,
                 gen_buf = (b @ [Tok_string (d_key (descriptors ! j))]) @ [Tok_string v]\<rparr>"
        using valid by (simp add: yajl_gen_string_def)
      show ?thesis
        using v sec True
        by (simp add: Let_def g1 g2 ih field_tokens_def render_def)
    next
      case False
      obtain w e where st: "strtoul v = (w, e)" by (cases "strtoul v")
      have e: "e = 0" using j(2) v False st by (simp add: field_ok_def)
      have g2: "yajl_gen_integer \<lparr>gen_state = yajl_gen_map_val # rest,
                   gen_buf = b @ [Tok_string (d_key (descriptors ! j))]\<rparr> (sint w) =
                \<lparr>gen_state = yajl_gen_map_key # rest,
                 gen_buf = (b @ [Tok_string (d_key (descriptors ! j))]) @ [Tok_integer (sint w)]\<rparr>"
        by (simp add: yajl_gen_integer_def)
      show ?thesis
        using v sec False st e
        by (simp add: Let_def g1 g2 ih field_tokens_def render_def)
    qed
  qed
qed

lemma section_tokens:
  "concat (map (field_tokens vs) (set_fields vs i)) =
   concat (map (\<lambda>p. Tok_string (fst p) # json_tokens (snd p)) (canonical_section vs i))"
  by (simp add: canonical_section_def comp_def field_tokens_def [abs_def])

lemma gen_sections_canonical:
  assumes "s = yajl_gen_map_start \<or> s = yajl_gen_map_key"
    and "\<forall>j<n_values. field_ok vs j \<and> printable vs j"
    and "\<forall>i\<in>set ss. i < n_sections"
  shows "gen_sections vs hs ss \<lparr>gen_state = s # rest, gen_buf = b\<rparr> =
           Inr \<lparr>gen_state = (if filter (\<lambda>i. hs ! i \<noteq> 0) ss = [] then s else yajl_gen_map_key) # rest,
                gen_buf =
                  b @ concat (map (\<lambda>i. Tok_string (sections ! i) #
                                        json_tokens (JMap (canonical_section vs i)))
                        (filter (\<lambda>i. hs ! i \<noteq> 0) ss))\<rparr>"
  using assms(1,3)
proof (induction ss arbitrary: s b)
  case Nil
  then show ?case by simp
next
  case (Cons i ss)
  have rest: "\<forall>i\<in>set ss. i < n_sections" using Cons.prems(2) by simp
  have i: "i < n_sections" using Cons.prems(2) by simp
  show ?case
  proof (cases "hs ! i = 0")
    case True
    then show ?thesis using Cons.IH [OF Cons.prems(1) rest] by simp
  next
    case False
    have mk: "yajl_gen_map_key = yajl_gen_map_start \<or> yajl_gen_map_key = yajl_gen_map_key"
      by simp
    let ?fields = "concat (map (field_tokens vs) (set_fields vs i))"
    let ?b3 = "b @ Tok_string (sections ! i) # Tok_map_open # ?fields"
    have g1: "yajl_gen_string \<lparr>gen_state = s # rest, gen_buf = b\<rparr> (sections ! i) =
              \<lparr>gen_state = yajl_gen_map_val # rest, gen_buf = b @ [Tok_string (sections ! i)]\<rparr>"
      using Cons.prems(1) sections_valid_utf8 [OF i] by (auto simp add: yajl_gen_string_def)
    have g2: "yajl_gen_map_open \<lparr>gen_state = yajl_gen_map_val # rest,
                 gen_buf = b @ [Tok_string (sections ! i)]\<rparr> =
              \<lparr>gen_state = yajl_gen_map_start # yajl_gen_map_val # rest,
               gen_buf = b @ [Tok_string (sections ! i), Tok_map_open]\<rparr>"
      by (simp add: yajl_gen_map_open_def)
    have all: "\<forall>j\<in>set [0..<n_values]. j < n_values \<and> field_ok vs j \<and> printable vs j"
      using assms(2) by simp
    have ms: "yajl_gen_map_start = yajl_gen_map_start \<or> yajl_gen_map_start = yajl_gen_map_key"
      by simp
    define t where "t = (if set_fields vs i = [] then yajl_gen_map_start else yajl_gen_map_key)"
    have t: "t = yajl_gen_map_start \<or> t = yajl_gen_map_key" by (simp add: t_def)
    have g3: "gen_fields vs i [0..<n_values]
                 \<lparr>gen_state = yajl_gen_map_start # yajl_gen_map_val # rest,
                  gen_buf = b @ [Tok_string (sections ! i), Tok_map_open]\<rparr> =
               Inr \<lparr>gen_state = t # yajl_gen_map_val # rest, gen_buf = ?b3\<rparr>"
      unfolding t_def set_fields_def
      using gen_fields_canonical [where s = yajl_gen_map_start and js = "[0..<n_values]"
        and vs = vs and i = i and rest = "yajl_gen_map_val # rest"
        and b = "b @ [Tok_string (sections ! i), Tok_map_open]", OF ms all]
      by simp
    have g4: "yajl_gen_map_close \<lparr>gen_state = t # yajl_gen_map_val # rest, gen_buf = ?b3\<rparr> =
              \<lparr>gen_state = yajl_gen_map_key # rest, gen_buf = ?b3 @ [Tok_map_close]\<rparr>"
      by (simp add: yajl_gen_map_close_fields [OF t])
    have step: "gen_sections vs hs (i # ss) \<lparr>gen_state = s # rest, gen_buf = b\<rparr> =
                gen_sections vs hs ss
                  \<lparr>gen_state = yajl_gen_map_key # rest, gen_buf = ?b3 @ [Tok_map_close]\<rparr>"
      using False by (simp add: Let_def g1 g2 g3 g4)
    show ?thesis
      unfolding step Cons.IH [OF mk rest]
      using False
      by (simp add: section_tokens json_tokens_JMap del: json_tokens.simps)
  qed
qed

lemma build_file_canonical:
  assumes "utf8_ok vs" and "\<forall>j<n_values. field_ok vs j"
  shows "build_file None vs = Inr (json_tokens (canonical_document vs))"
proof -
  have filt: "filter (\<lambda>s. has_sections vs ! s \<noteq> 0) [0..<n_sections] =
              filter (\<lambda>s. set_fields vs s \<noteq> []) [0..<n_sections]"
    by (rule filter_cong) (simp_all add: has_sections_nth)
  have all: "\<forall>j<n_values. field_ok vs j \<and> printable vs j"
    using assms utf8_ok_nth by blast
  have secs: "\<forall>i\<in>set [0..<n_sections]. i < n_sections" by simp
  let ?body = "concat (map (\<lambda>i. Tok_string (sections ! i) #
                                  json_tokens (JMap (canonical_section vs i)))
                        (filter (\<lambda>s. set_fields vs s \<noteq> []) [0..<n_sections]))"
  have g0: "yajl_gen_map_open yajl_gen_new =
            \<lparr>gen_state = [yajl_gen_map_start, yajl_gen_start], gen_buf = [Tok_map_open]\<rparr>"
    by (simp add: yajl_gen_map_open_def yajl_gen_new_def)
  have ms: "yajl_gen_map_start = yajl_gen_map_start \<or> yajl_gen_map_start = yajl_gen_map_key"
    by simp
  define t where "t = (if filter (\<lambda>s. set_fields vs s \<noteq> []) [0..<n_sections] = []
                       then yajl_gen_map_start else yajl_gen_map_key)"
  have t: "t = yajl_gen_map_start \<or> t = yajl_gen_map_key" by (simp add: t_def)
  have g1: "gen_sections vs (has_sections vs) [0..<n_sections]
               \<lparr>gen_state = [yajl_gen_map_start, yajl_gen_start], gen_buf = [Tok_map_open]\<rparr> =
             Inr \<lparr>gen_state = [t, yajl_gen_start], gen_buf = Tok_map_open # ?body\<rparr>"
    unfolding t_def
    using gen_sections_canonical [where s = yajl_gen_map_start and vs = vs
      and ss = "[0..<n_sections]" and hs = "has_sections vs" and rest = "[yajl_gen_start]"
      and b = "[Tok_map_open]", OF ms all secs]
    by (simp add: filt del: json_tokens.simps)
  have g2: "gen_buf (yajl_gen_map_close \<lparr>gen_state = [t, yajl_gen_start],
              gen_buf = Tok_map_open # ?body\<rparr>) = Tok_map_open # ?body @ [Tok_map_close]"
    by (simp add: yajl_gen_map_close_fields [OF t] del: json_tokens.simps)
  have "build_file None vs = Inr (Tok_map_open # ?body @ [Tok_map_close])"
    by (simp add: build_file_def g0 g1 g2 del: json_tokens.simps)
  moreover have "json_tokens (canonical_document vs) = Tok_map_open # ?body @ [Tok_map_close]"
    unfolding canonical_document_def json_tokens_JMap [of "map _ _"]
    by (simp add: comp_def json_tokens_JMap del: json_tokens.simps)
  ultimately show ?thesis by simp
qed

subsection \<open>The descriptor table and unknown keys\<close>

lemma descriptor_ids:
  "map d_id descriptors =
     [1000, 1001, 1002, 1003, 1004, 1005, 1006, 1007, 1008, 1009, 1010, 1011, 1012, 1013]"
  by (simp add: descriptors_def descr_def option_ids)

lemma descriptor_id_nth:
  assumes "i < n_values"
  shows "d_id (descriptors ! i) = FIRST_VALUE + int i"
proof -
  have "map d_id descriptors = map (\<lambda>i. FIRST_VALUE + int i) [0..<14]"
    by (simp add: descriptor_ids FIRST_VALUE_def upt_rec)
  then have "\<forall>i<14. map d_id descriptors ! i = map (\<lambda>i. FIRST_VALUE + int i) [0..<14] ! i"
    by simp
  then show ?thesis using assms by (simp add: n_values_14 length_descriptors)
qed

lemma option_keys:
  "snd ` set options =
     {114, 1000, 1001, 1002, 1003, 1004, 1005, 1006, 1007, 1008, 1009, 1010, 1011, 1012, 1013}"
  by (simp add: options_def option_ids KEY_r_def)

lemma parse_opt_unknown:
  "key \<notin> snd ` set options \<Longrightarrow>
   parse_opt key arg st =
     (if key = ARGP_KEY_NO_ARGS then Inl (Failure 0 ''please specify a ID for the container'')
      else Inr (ARGP_ERR_UNKNOWN, st))"
  by (simp add: option_keys parse_opt_def option_ids KEY_r_def)

lemma parse_opts_unknown:
  "key \<notin> snd ` set options \<Longrightarrow> (key, arg) \<in> set opts \<Longrightarrow> \<exists>e. parse_opts opts st = Inl e"
proof (induction opts arbitrary: st)
  case Nil
  then show ?case by simp
next
  case (Cons ka opts)
  obtain k a where ka: "ka = (k, a)" by (cases ka)
  show ?case
  proof (cases "parse_opt k a st")
    case (Inl e)
    then show ?thesis using ka by simp
  next
    case (Inr rs)
    obtain r st' where rs: "rs = (r, st')" by (cases rs)
    show ?thesis
    proof (cases "r = 0")
      case False
      then show ?thesis using ka Inr rs by simp
    next
      case True
      have "(k, a) \<noteq> (key, arg)"
      proof
        assume "(k, a) = (key, arg)"
        then have "parse_opt key arg st = Inr (0, st')" using Inr rs True by simp
        then show False using parse_opt_unknown [OF Cons.prems(1), of arg st]
          by (simp add: ARGP_ERR_UNKNOWN_def split: if_splits)
      qed
      then have "(key, arg) \<in> set opts" using Cons.prems(2) ka by auto
      then obtain e where "parse_opts opts st' = Inl e"
        using Cons.IH [OF Cons.prems(1)] by blast
      then show ?thesis using ka Inr rs True by simp
    qed
  qed
qed

lemma unique_descriptor:
  "k \<in> set (map d_id descriptors) \<Longrightarrow> \<exists>!d. d \<in> set descriptors \<and> d_id d = k"
proof -
  assume k: "k \<in> set (map d_id descriptors)"
  have "distinct (map d_id descriptors)" by (simp add: descriptor_ids)
  then have inj: "inj_on d_id (set descriptors)" by (simp add: distinct_map)
  from k obtain d where d: "d \<in> set descriptors" "d_id d = k" by auto
  show ?thesis
  proof (rule ex1I [of _ d])
    show "d \<in> set descriptors \<and> d_id d = k" using d by simp
  next
    fix d' assume "d' \<in> set descriptors \<and> d_id d' = k"
    then show "d' = d" using inj d by (auto dest: inj_onD)
  qed
qed

text \<open>
  Claim C7. Every recognized resource option key has exactly one descriptor: the ids
  of the table are distinct, they are the keys of the option table other than the key
  of \<open>--resources\<close>, each of them has one and only one descriptor, and the descriptor
  of the key at offset \<open>i\<close> from \<open>FIRST_VALUE\<close> sits at index \<open>i\<close>, where
  \<open>build_file\<close> pairs it with \<open>values[i]\<close>. A key outside the option table is
  answered with \<open>ARGP_ERR_UNKNOWN\<close> by \<open>parse_opt\<close>, which leaves the state as it
  was, and a command line holding such a key ends in an exit: nothing is generated
  from it.
\<close>

theorem descriptor_per_option_key:
  "distinct (map d_id descriptors)
   \<and> set (map d_id descriptors) = snd ` set options - {KEY_r}
   \<and> (\<forall>k\<in>set (map d_id descriptors). \<exists>!d. d \<in> set descriptors \<and> d_id d = k)
   \<and> (\<forall>i<n_values. d_id (descriptors ! i) = FIRST_VALUE + int i)
   \<and> (key \<notin> snd ` set options \<longrightarrow> key \<noteq> ARGP_KEY_NO_ARGS \<longrightarrow>
        parse_opt key arg st = Inr (ARGP_ERR_UNKNOWN, st))
   \<and> (key \<notin> snd ` set options \<longrightarrow> (key, arg) \<in> set opts \<longrightarrow>
        (\<exists>e. crun_command_update env opts args = Exit e))"
proof (intro conjI)
  show "distinct (map d_id descriptors)" by (simp add: descriptor_ids)
  show "set (map d_id descriptors) = snd ` set options - {KEY_r}"
    by (simp only: descriptor_ids option_keys KEY_r_def) auto
  show "\<forall>k\<in>set (map d_id descriptors). \<exists>!d. d \<in> set descriptors \<and> d_id d = k"
    using unique_descriptor by blast
  show "\<forall>i<n_values. d_id (descriptors ! i) = FIRST_VALUE + int i"
    by (simp add: descriptor_id_nth)
  show "key \<notin> snd ` set options \<longrightarrow> key \<noteq> ARGP_KEY_NO_ARGS \<longrightarrow>
        parse_opt key arg st = Inr (ARGP_ERR_UNKNOWN, st)"
    by (simp add: parse_opt_unknown)
  show "key \<notin> snd ` set options \<longrightarrow> (key, arg) \<in> set opts \<longrightarrow>
        (\<exists>e. crun_command_update env opts args = Exit e)"
  proof (intro impI)
    assume "key \<notin> snd ` set options" "(key, arg) \<in> set opts"
    then obtain e where "parse_opts opts initial_state = Inl e"
      using parse_opts_unknown by blast
    then show "\<exists>e. crun_command_update env opts args = Exit e"
      by (simp add: crun_command_update_def argp_parse_def)
  qed
qed

theorem descriptor_per_option_key_witness:
  "MEMORY \<in> set (map d_id descriptors)
   \<and> (\<exists>!d. d \<in> set descriptors \<and> d_id d = MEMORY)
   \<and> (2::nat) < n_values \<and> d_id (descriptors ! 2) = FIRST_VALUE + 2
   \<and> 5 \<notin> snd ` set options \<and> 5 \<noteq> ARGP_KEY_NO_ARGS
   \<and> parse_opt 5 ''x'' initial_state = Inr (ARGP_ERR_UNKNOWN, initial_state)
   \<and> (5, ''x'') \<in> set [(MEMORY, ''1''), (5, ''x'')]
   \<and> (\<exists>e. crun_command_update env_ok [(MEMORY, ''1''), (5, ''x'')] [''c1''] = Exit e)"
proof -
  have m: "MEMORY \<in> set (map d_id descriptors)"
    by (simp add: descriptor_ids MEMORY_def)
  have n: "(2::nat) < n_values" by (simp add: n_values_14)
  have u: "5 \<notin> snd ` set options" by (simp add: option_keys)
  have a: "(5::int) \<noteq> ARGP_KEY_NO_ARGS" by (simp add: ARGP_KEY_NO_ARGS_def)
  have i: "(5, ''x'') \<in> set [(MEMORY, ''1''), (5, ''x'')]" by simp
  note t = descriptor_per_option_key
      [of 5 "''x''" initial_state "[(MEMORY, ''1''), (5, ''x'')]" env_ok "[''c1'']"]
  have c3: "\<exists>!d. d \<in> set descriptors \<and> d_id d = MEMORY"
    using t m by blast
  have c4: "d_id (descriptors ! 2) = FIRST_VALUE + 2"
    using t n by force
  have c5: "parse_opt 5 ''x'' initial_state = Inr (ARGP_ERR_UNKNOWN, initial_state)"
    using t u a by blast
  have c6: "\<exists>e. crun_command_update env_ok [(MEMORY, ''1''), (5, ''x'')] [''c1''] = Exit e"
    using t u i by blast
  show ?thesis
    using m n u a i c3 c4 c5 c6 by blast
qed

subsection \<open>Keys of the canonical document and repeated options\<close>

lemma sections_distinct_keys:
  "list_all (\<lambda>j. filter (\<lambda>j'. d_section (descriptors ! j') = d_section (descriptors ! j)
                              \<and> d_key (descriptors ! j') = d_key (descriptors ! j)) [0..<14] = [j])
     [0..<14]"
  by code_simp

lemma same_key_filter:
  assumes "j < n_values"
  shows "filter (\<lambda>j'. d_key (descriptors ! j') = d_key (descriptors ! j))
           (set_fields vs (d_section (descriptors ! j))) =
         (if vs ! j = None then [] else [j])"
proof -
  have one: "filter (\<lambda>j'. d_section (descriptors ! j') = d_section (descriptors ! j)
                     \<and> d_key (descriptors ! j') = d_key (descriptors ! j)) [0..<14] = [j]"
    using sections_distinct_keys assms by (simp add: list_all_iff n_values_14)
  have "filter (\<lambda>j'. d_key (descriptors ! j') = d_key (descriptors ! j))
           (set_fields vs (d_section (descriptors ! j))) =
        filter (\<lambda>j'. vs ! j' \<noteq> None)
          (filter (\<lambda>j'. d_section (descriptors ! j') = d_section (descriptors ! j)
                     \<and> d_key (descriptors ! j') = d_key (descriptors ! j)) [0..<14])"
    unfolding set_fields_def n_values_14 filter_filter
    by (rule filter_cong) auto
  then show ?thesis by (simp add: one)
qed














subsection \<open>The generated document is canonical\<close>




subsection \<open>The empty document\<close>

lemma set_fields_empty: "set_fields (replicate n_values None) s = []"
  by (simp add: set_fields_def filter_empty_conv)

lemma build_file_empty:
  "build_file None (replicate n_values None) = Inr (json_tokens (JMap []))"
proof -
  have ok: "\<forall>j<n_values. field_ok (replicate n_values None) j"
    by (simp add: field_ok_def)
  have u: "utf8_ok (replicate n_values None)"
    by (simp add: utf8_ok_def printable_def list_all_iff)
  have "canonical_document (replicate n_values None) = JMap []"
    by (simp add: canonical_document_def set_fields_empty)
  then show ?thesis using build_file_canonical [OF u ok] by simp
qed

lemma parse_fields_empty: "parse_fields [] js = Inr (replicate (length js) None)"
  by (induction js) (simp_all add: parse_field_def)

lemma plan_empty: "plan backend empty_document = []"
  by (simp add: plan_def empty_document_def)

text \<open>
  Claim C4. With no resource option set and the container id as the only argument,
  in a run where the generator is allocated and the context initialised, the command
  hands libcrun a document with no sections, the tokens of an empty top-level map.
  That map is the serialization of the empty Document and parses back to it, the write plan of the
  empty Document has length zero for every backend, and for a container whose cgroup
  is found the update returns success.
\<close>

theorem empty_document_update:
  assumes "gen_alloc env = None" and "0 \<le> init_ret env"
  shows "crun_command_update env [] [cid] = Libcrun_container_update cid (json_tokens (JMap []))
         \<and> serialize empty_document = Inr (json_tokens (JMap []))
         \<and> parse (json_tokens (JMap [])) = Inr empty_document
         \<and> plan backend empty_document = []
         \<and> update backends ap (Some t) empty_document = Success"
proof (intro conjI)
  show "crun_command_update env [] [cid] = Libcrun_container_update cid (json_tokens (JMap []))"
    using assms build_file_empty
    by (simp add: crun_command_update_def argp_parse_def update_body_def initial_state_def)
  show "serialize empty_document = Inr (json_tokens (JMap []))"
    using build_file_empty by (simp add: serialize_def option_values_def empty_document_def)
  show "parse (json_tokens (JMap [])) = Inr empty_document"
    by (simp add: parse_def parse_fields_empty empty_document_def)
  show "plan backend empty_document = []" by (rule plan_empty)
  show "update backends ap (Some t) empty_document = Success"
    by (simp add: update_def plan_empty)
qed

theorem empty_document_update_witness:
  "gen_alloc env_ok = None \<and> 0 \<le> init_ret env_ok
   \<and> crun_command_update env_ok [] [''c1''] = Libcrun_container_update ''c1'' (json_tokens (JMap []))
   \<and> serialize empty_document = Inr (json_tokens (JMap []))
   \<and> parse (json_tokens (JMap [])) = Inr empty_document
   \<and> plan (\<lambda>j x. [(''memory.limit_in_bytes'', ''1'')]) empty_document = []
   \<and> update (\<lambda>t j x. [(t, ''1'')]) (\<lambda>w. Some 1) (Some ''/sys/fs/cgroup/c1'') empty_document = Success"
proof -
  have a: "gen_alloc env_ok = None" by (simp add: env_ok_def)
  have b: "0 \<le> init_ret env_ok" by (simp add: env_ok_def)
  show ?thesis
    using a b empty_document_update [OF a b, of "''c1''" "\<lambda>j x. [(''memory.limit_in_bytes'', ''1'')]"
        "\<lambda>t j x. [(t, ''1'')]" "\<lambda>w. Some 1" "''/sys/fs/cgroup/c1''"]
    by simp
qed

subsection \<open>The input source\<close>










subsection \<open>Numeric values\<close>

text \<open>
  What the \<open>errno\<close> test of \<open>build_file\<close> does catch: a set numeric field on
  which \<open>strtoul\<close> reports an error ends the run before libcrun is called.
\<close>

lemma out_of_range_exits:
  assumes "j < n_values" and "vs ! j = Some v" and "d_numeric (descriptors ! j) \<noteq> 0"
    and "snd (strtoul v) \<noteq> 0"
  shows "build_file None vs = Inl (Failure ERANGE ''invalid setting'')"
proof -
  have "\<not> field_ok vs j" using assms by (simp add: field_ok_def)
  then have "\<not> (\<forall>j<n_values. field_ok vs j)" using assms(1) by blast
  then show ?thesis by (rule build_file_fails)
qed

lemma out_of_range_example:
  "crun_command_update env_ok [(MEMORY, ''18446744073709551616'')] [''c1''] =
     Exit (Failure ERANGE ''invalid setting'')"
  by code_simp

text \<open>
  Claim C1 at \<open>--memory 12abc\<close>: the value is not an unsigned base-10 integer, yet
  the command does not fail. \<open>strtoul\<close> converts the leading digits and leaves
  \<open>errno\<close> at 0, the document says 12, and libcrun is called with it. In the same
  way \<open>--memory abc\<close> is passed on as 0.
\<close>

theorem malformed_number_accepted:
  "crun_command_update env_ok [(MEMORY, ''12abc'')] [''c1''] =
     Libcrun_container_update ''c1''
       (json_tokens (JMap [(''memory'', JMap [(''limit'', JInteger 12)])]))
   \<and> crun_command_update env_ok [(MEMORY, ''abc'')] [''c1''] =
     Libcrun_container_update ''c1''
       (json_tokens (JMap [(''memory'', JMap [(''limit'', JInteger 0)])]))"
  by code_simp

text \<open>
  Claim C8 at \<open>--memory 18446744073709551615\<close>: the value is a valid unsigned
  base-10 integer that \<open>strtoul\<close> represents, and the number in the document is
  \<open>-1\<close>. The result of \<open>strtoul\<close> is stored in a \<open>long\<close>, so every value from
  \<open>2 ^ 63\<close> on changes sign.
\<close>

theorem large_number_changes_sign:
  "crun_command_update env_ok [(MEMORY, ''18446744073709551615'')] [''c1''] =
     Libcrun_container_update ''c1''
       (json_tokens (JMap [(''memory'', JMap [(''limit'', JInteger (- 1))])]))
   \<and> crun_command_update env_ok [(PIDS_LIMIT, ''9223372036854775808'')] [''c1''] =
     Libcrun_container_update ''c1''
       (json_tokens (JMap [(''pids'', JMap [(''limit'', JInteger (- 9223372036854775808))])]))"
  by code_simp

section \<open>Properties of the seccomp-listener probe\<close>

lemma listener_child_code:
  "fst (listener_child env) = (if 0 \<le> prctl_ret env \<and> 0 < seccomp_ret env then 0 else 1)"
  by (simp add: listener_child_def Let_def)

lemma listener_child_calls:
  "snd (listener_child env) =
     Prctl PR_SET_NO_NEW_PRIVS 1 0 0 0 #
     (if 0 \<le> prctl_ret env
      then [Seccomp SECCOMP_SET_MODE_FILTER SECCOMP_FILTER_FLAG_NEW_LISTENER 1 bpf] else [])"
  by (simp add: listener_child_def Let_def)

lemma signal_low_bits:
  fixes sig :: int
  assumes "0 < sig" and "sig < 128"
  shows "sig AND 0x7f = sig"
proof -
  have "take_bit 7 sig = sig" using assms by (simp add: take_bit_int_eq_self)
  moreover have "(mask 7 :: int) = 0x7f" by (simp add: mask_eq_exp_minus_1)
  ultimately show ?thesis by (simp add: take_bit_eq_mask)
qed

lemma child_status_exit_0:
  assumes "probe_env_ok env"
  shows "(WIFEXITED (child_status env) \<and> WEXITSTATUS (child_status env) = 0) =
         (child_signal env = None \<and> 0 \<le> prctl_ret env \<and> 0 < seccomp_ret env)"
proof (cases "child_signal env")
  case None
  then show ?thesis
    by (simp add: child_status_def listener_child_code WIFEXITED_def WEXITSTATUS_def)
next
  case (Some sig)
  then have "0 < sig" "sig < 128" using assms by (simp_all add: probe_env_ok_def)
  then have "sig AND 0x7f = sig" "sig \<noteq> 0" using signal_low_bits by auto
  then show ?thesis using Some
    by (simp add: child_status_def WIFEXITED_def)
qed

lemma waitpid_loop_None:
  "(waitpid_loop rs = None) = (\<forall>r\<in>set rs. fst r < 0 \<and> snd r = EINTR)"
  by (induction rs rule: waitpid_loop.induct) auto

lemma probe_zero:
  assumes "probe_env_ok env"
  shows "(check_feature_seccomp_listener env = Some 0) =
           (have_seccomp env \<and> 0 < fork_ret env \<and> 0 \<le> prctl_ret env \<and> 0 < seccomp_ret env \<and>
            child_signal env = None \<and>
            (\<exists>e. waitpid_loop (waitpid_rets env) = Some (fork_ret env, e)))"
proof -
  have p: "fork_ret env \<noteq> 0" using assms by (simp add: probe_env_ok_def)
  show ?thesis
    using p child_status_exit_0 [OF assms]
    by (auto simp add: check_feature_seccomp_listener_def Let_def split: option.splits)
qed

lemma probe_values:
  "check_feature_seccomp_listener env = None \<or> check_feature_seccomp_listener env = Some 0 \<or>
   check_feature_seccomp_listener env = Some 1"
  by (auto simp add: check_feature_seccomp_listener_def Let_def listener_child_code
      split: option.splits)

lemma probe_waits:
  assumes "probe_env_ok env"
  shows "(check_feature_seccomp_listener env = None) =
           (have_seccomp env \<and> 0 < fork_ret env \<and>
            list_all (\<lambda>r. fst r < 0 \<and> snd r = EINTR) (waitpid_rets env))"
proof -
  have p: "fork_ret env \<noteq> 0" using assms by (simp add: probe_env_ok_def)
  show ?thesis
    using p waitpid_loop_None [of "waitpid_rets env"]
    by (auto simp add: check_feature_seccomp_listener_def Let_def list_all_iff
        split: option.splits)
qed

lemma bpf_always_allow: "filter_code bpf = BPF_RET \<and> filter_k bpf = SECCOMP_RET_ALLOW"
  by (simp add: filter_code_def filter_k_def bpf_def BPF_RET_def SECCOMP_RET_ALLOW_def)

text \<open>
  Claim C6, as amended. The child first calls \<open>prctl\<close> to set no-new-privileges
  and, only when that succeeded, calls \<open>seccomp\<close> to install with the new-listener
  flag a filter of one instruction that returns \<open>SECCOMP_RET_ALLOW\<close>. The exit
  status of the probe is 0 exactly when seccomp support is compiled in, \<open>fork\<close>
  succeeded, \<open>prctl\<close> succeeded in the child, the \<open>seccomp\<close> call returned a
  descriptor above 0, the child was not killed, and \<open>waitpid\<close> in the parent
  returned the child's pid. In every other case in which the probe ends, its status
  is 1; it does not end only while every \<open>waitpid\<close> is interrupted.
\<close>

theorem listener_probe_status:
  assumes "probe_env_ok env"
  shows "((check_feature_seccomp_listener env = Some 0) =
           (have_seccomp env \<and> 0 < fork_ret env \<and> 0 \<le> prctl_ret env \<and> 0 < seccomp_ret env \<and>
            child_signal env = None \<and>
            (\<exists>e. waitpid_loop (waitpid_rets env) = Some (fork_ret env, e))))
    \<and> (check_feature_seccomp_listener env = None \<or> check_feature_seccomp_listener env = Some 0 \<or>
         check_feature_seccomp_listener env = Some 1)
    \<and> ((check_feature_seccomp_listener env = None) =
           (have_seccomp env \<and> 0 < fork_ret env \<and>
            list_all (\<lambda>r. fst r < 0 \<and> snd r = EINTR) (waitpid_rets env)))
    \<and> snd (listener_child env) =
           Prctl PR_SET_NO_NEW_PRIVS 1 0 0 0 #
           (if 0 \<le> prctl_ret env
            then [Seccomp SECCOMP_SET_MODE_FILTER SECCOMP_FILTER_FLAG_NEW_LISTENER 1 bpf] else [])
    \<and> filter_code bpf = BPF_RET \<and> filter_k bpf = SECCOMP_RET_ALLOW"
  using probe_zero [OF assms] probe_values [of env] probe_waits [OF assms]
    listener_child_calls [of env] bpf_always_allow
  by blast

theorem listener_probe_status_witness:
  "probe_env_ok env_supported
   \<and> check_feature_seccomp_listener env_supported = Some 0
   \<and> have_seccomp env_supported \<and> 0 < fork_ret env_supported \<and> 0 \<le> prctl_ret env_supported
   \<and> 0 < seccomp_ret env_supported \<and> child_signal env_supported = None
   \<and> (\<exists>e. waitpid_loop (waitpid_rets env_supported) = Some (fork_ret env_supported, e))"
proof -
  have ok: "probe_env_ok env_supported"
    by (simp add: probe_env_ok_def env_supported_def)
  have run: "check_feature_seccomp_listener env_supported = Some 0"
    by (simp add: check_feature_seccomp_listener_def env_supported_def EINTR_def
        child_status_def listener_child_def WIFEXITED_def WEXITSTATUS_def)
  show ?thesis
    using ok run listener_probe_status [OF ok] by blast
qed

text \<open>
  Claim C6 as stated fails. In \<open>env_wait_fails\<close> the install succeeds (the
  \<open>seccomp\<close> call returns descriptor 3 and the child returns 0), yet the exit
  status of the probe is 1, because \<open>waitpid\<close> failed in the parent. In
  \<open>env_descriptor_0\<close> the install succeeds with descriptor 0, which the child takes
  for a failure, and the exit status is 1 again.
\<close>

theorem listener_installed_probe_fails:
  "have_seccomp env_wait_fails \<and> 0 < fork_ret env_wait_fails
   \<and> 0 \<le> prctl_ret env_wait_fails \<and> 0 \<le> seccomp_ret env_wait_fails
   \<and> fst (listener_child env_wait_fails) = 0
   \<and> check_feature_seccomp_listener env_wait_fails = Some 1
   \<and> have_seccomp env_descriptor_0 \<and> 0 < fork_ret env_descriptor_0
   \<and> 0 \<le> prctl_ret env_descriptor_0 \<and> 0 \<le> seccomp_ret env_descriptor_0
   \<and> check_feature_seccomp_listener env_descriptor_0 = Some 1"
  by (simp add: check_feature_seccomp_listener_def env_wait_fails_def env_descriptor_0_def
      EINTR_def ECHILD_def child_status_def listener_child_def WIFEXITED_def WEXITSTATUS_def)

section \<open>Properties of the spec command\<close>

lemma spec_opts_rejected:
  "opts \<noteq> [] \<Longrightarrow> crun_command_spec env opts args files = (Exited Usage, files)"
  by (cases opts) (auto simp add: crun_command_spec_def spec_parse_opt_def ARGP_ERR_UNKNOWN_def)

text \<open>
  Claim C10. Let \<open>crun_path_exists\<close> answer truthfully for \<open>config.json\<close>
  whenever it does not fail. If \<open>config.json\<close> exists, the command leaves the file
  system as it was and ends in an error: the usage exit, the error code of the
  existence test, or the error \<open>config.json already exists\<close>. The file system
  changes only when \<open>config.json\<close> did not exist, and then only by that file
  being created with what \<open>libcrun_container_spec\<close> wrote; that happens whenever
  the file is absent, no argument is given, the test does not fail and \<open>fopen\<close>
  succeeds.
\<close>

theorem spec_never_overwrites:
  assumes "0 \<le> crun_path_exists env files ''config.json'' \<longrightarrow>
           (crun_path_exists env files ''config.json'' \<noteq> 0) = (files ''config.json'' \<noteq> None)"
  shows "(files ''config.json'' \<noteq> None \<longrightarrow>
            snd (crun_command_spec env opts args files) = files \<and>
            (fst (crun_command_spec env opts args files) = Exited Usage \<or>
             fst (crun_command_spec env opts args files) =
               Returned (crun_path_exists env files ''config.json'') \<and>
               crun_path_exists env files ''config.json'' < 0 \<or>
             fst (crun_command_spec env opts args files) =
               Made_error 0 ''config.json already exists''))
         \<and> (snd (crun_command_spec env opts args files) \<noteq> files \<longrightarrow>
            files ''config.json'' = None \<and>
            snd (crun_command_spec env opts args files) =
              files(''config.json'' \<mapsto> fst (container_spec env)))
         \<and> (files ''config.json'' = None \<and> opts = [] \<and> args = [] \<and>
            0 \<le> crun_path_exists env files ''config.json'' \<and> fopen_ok env \<longrightarrow>
            snd (crun_command_spec env opts args files) =
              files(''config.json'' \<mapsto> fst (container_spec env)))"
proof (cases "opts = []")
  case False
  then show ?thesis by (simp add: spec_opts_rejected)
next
  case True
  show ?thesis
    using assms True
    by (auto simp add: crun_command_spec_def Let_def split: prod.splits)
qed

theorem spec_never_overwrites_witness:
  "(crun_path_exists spec_env_ok fs_with_config ''config.json'' \<noteq> 0) =
     (fs_with_config ''config.json'' \<noteq> None)
   \<and> fs_with_config ''config.json'' = Some ''old''
   \<and> crun_command_spec spec_env_ok [] [] fs_with_config =
       (Made_error 0 ''config.json already exists'', fs_with_config)
   \<and> (crun_path_exists spec_env_ok Map.empty ''config.json'' \<noteq> 0) =
     (Map.empty ''config.json'' \<noteq> (None :: string option))
   \<and> snd (crun_command_spec spec_env_ok [] [] Map.empty) = [''config.json'' \<mapsto> ''{}'']"
proof -
  have a: "0 \<le> crun_path_exists spec_env_ok fs_with_config ''config.json'' \<longrightarrow>
        (crun_path_exists spec_env_ok fs_with_config ''config.json'' \<noteq> 0) =
        (fs_with_config ''config.json'' \<noteq> None)"
    by (simp add: spec_env_ok_def path_exists_stat_def fs_with_config_def)
  have b: "0 \<le> crun_path_exists spec_env_ok Map.empty ''config.json'' \<longrightarrow>
        (crun_path_exists spec_env_ok Map.empty ''config.json'' \<noteq> 0) =
        (Map.empty ''config.json'' \<noteq> (None :: string option))"
    by (simp add: spec_env_ok_def path_exists_stat_def)
  have c: "fs_with_config ''config.json'' = Some ''old''" by (simp add: fs_with_config_def)
  have d: "crun_path_exists spec_env_ok fs_with_config ''config.json'' = 1"
    by (simp add: spec_env_ok_def path_exists_stat_def fs_with_config_def)
  have e: "crun_path_exists spec_env_ok Map.empty ''config.json'' = 0"
    by (simp add: spec_env_ok_def path_exists_stat_def)
  have f: "fopen_ok spec_env_ok" "container_spec spec_env_ok = (''{}'', 0)"
    by (simp_all add: spec_env_ok_def)
  have g: "fst (crun_command_spec spec_env_ok [] [] fs_with_config) =
             Made_error 0 ''config.json already exists''"
    by (simp add: crun_command_spec_def d)
  have c': "fs_with_config ''config.json'' \<noteq> None" by (simp add: c)
  note t1 = spec_never_overwrites [OF a, of "[]" "[]", THEN conjunct1, THEN mp, OF c']
  have h: "snd (crun_command_spec spec_env_ok [] [] fs_with_config) = fs_with_config"
    using t1 by (rule conjunct1)
  have i: "crun_command_spec spec_env_ok [] [] fs_with_config =
             (Made_error 0 ''config.json already exists'', fs_with_config)"
    using g h by (simp add: prod_eq_iff)
  have pre: "Map.empty ''config.json'' = (None :: string option) \<and> [] = ([] :: (int \<times> string) list) \<and>
             [] = ([] :: string list) \<and>
             0 \<le> crun_path_exists spec_env_ok Map.empty ''config.json'' \<and> fopen_ok spec_env_ok"
    by (simp add: e f)
  note t2 = spec_never_overwrites [OF b, of "[]" "[]", THEN conjunct2, THEN conjunct2, THEN mp, OF pre]
  have j: "snd (crun_command_spec spec_env_ok [] [] Map.empty) = [''config.json'' \<mapsto> ''{}'']"
    using t2 by (simp add: f)
  show ?thesis
    using c d e i j by simp
qed

section \<open>The round trip through the canonical document\<close>

lemma of_char_digit_char:
  assumes "d < 10"
  shows "(of_char (digit_char d) :: int) = int d + 48"
proof -
  have "(of_char (digit_char d) :: nat) = (d + 48) mod 256"
    by (simp add: digit_char_def)
  also have "\<dots> = d + 48" using assms by simp
  finally have "(of_char (digit_char d) :: nat) = d + 48" .
  then have "int (of_char (digit_char d) :: nat) = int d + 48" by simp
  then show ?thesis by (simp only: of_nat_of_char)
qed

lemma isdigit_digit_char: "d < 10 \<Longrightarrow> isdigit (digit_char d)"
  by (simp add: isdigit_def of_char_digit_char)

lemma digit_val_digit_char: "d < 10 \<Longrightarrow> digit_val (digit_char d) = int d"
  by (simp add: digit_val_def of_char_digit_char)

lemma isdigit_not_space: "isdigit c \<Longrightarrow> \<not> isspace c \<and> c \<noteq> CHR ''-'' \<and> c \<noteq> CHR ''+''"
  by (auto simp add: isdigit_def isspace_def)

lemma digits_val_snoc: "digits_val (ds @ [c]) = 10 * digits_val ds + digit_val c"
  by (simp add: digits_val_def)

lemma decimal_digits: "list_all isdigit (decimal n) \<and> decimal n \<noteq> [] \<and> digits_val (decimal n) = int n"
proof (induction n rule: decimal.induct)
  case (1 n)
  show ?case
  proof (cases "10 \<le> n")
    case True
    have m: "n mod 10 < 10" by simp
    have eq: "decimal n = decimal (n div 10) @ [digit_char (n mod 10)]"
      using True by (subst decimal.simps) simp
    have "int n = 10 * int (n div 10) + int (n mod 10)"
      by (metis mult_div_mod_eq of_nat_add of_nat_mult of_nat_numeral)
    then show ?thesis
      using 1 [OF True] m
      by (simp add: eq digits_val_snoc isdigit_digit_char digit_val_digit_char)
  next
    case False
    then have eq: "decimal n = [digit_char n]" by (subst decimal.simps) simp
    show ?thesis using False
      by (simp add: eq digits_val_def isdigit_digit_char digit_val_digit_char)
  qed
qed

lemma strtoul_decimal:
  "strtoul (decimal n) =
     (if int n \<le> ULONG_MAX then (word_of_int (int n), 0) else (word_of_int ULONG_MAX, ERANGE))"
proof -
  note d = decimal_digits [of n]
  from d obtain c cs where cs: "decimal n = c # cs" by (cases "decimal n") auto
  from d cs have c: "isdigit c" by simp
  have dw: "dropWhile isspace (decimal n) = decimal n"
    using isdigit_not_space [OF c] by (simp add: cs)
  have ss: "strip_sign (decimal n) = (False, decimal n)"
    using isdigit_not_space [OF c] by (simp add: cs strip_sign_def)
  have tw: "takeWhile isdigit (decimal n) = decimal n"
    using d by (simp add: list_all_iff takeWhile_eq_all_conv)
  show ?thesis
    using d by (simp add: strtoul_def dw ss tw Let_def)
qed

lemma sint_below_2_63:
  assumes "n < 9223372036854775808"
  shows "sint (word_of_int (int n) :: 64 word) = int n"
proof -
  have "signed_take_bit 63 (int n) = int n"
    using assms by (intro signed_take_bit_int_eq_self) simp_all
  moreover have "sint (word_of_int (int n) :: 64 word) = signed_take_bit (LENGTH(64) - 1) (int n)"
    by (rule sint_sbintrunc')
  ultimately show ?thesis by simp
qed


lemma well_formed_nth:
  assumes "well_formed d"
  shows "length d = n_values" and "j < n_values \<Longrightarrow> field_fits (d ! j) (descriptors ! j)"
  using assms
  by (simp_all add: well_formed_def list_all2_conv_all_nth length_descriptors n_values_14)

lemma option_values_nth:
  "j < length d \<Longrightarrow> option_values d ! j = map_option option_string (d ! j)"
  by (simp add: option_values_def)

lemma below_2_63_nth:
  "below_2_63 d \<Longrightarrow> j < length d \<Longrightarrow> d ! j = Some (Number n) \<Longrightarrow> n < 9223372036854775808"
  by (auto simp add: below_2_63_def list_all_length)

lemma field_ok_option_values:
  assumes "well_formed d" and "below_2_63 d" and "j < n_values"
  shows "field_ok (option_values d) j"
proof -
  have len: "j < length d" using assms(1,3) by (simp add: well_formed_nth)
  show ?thesis
  proof (cases "d ! j")
    case None
    then show ?thesis using len by (simp add: field_ok_def option_values_nth)
  next
    case (Some x)
    show ?thesis
    proof (cases x)
      case (Number n)
      have "n < 9223372036854775808"
        using below_2_63_nth [OF assms(2) len] Some Number by simp
      then have "int n \<le> ULONG_MAX" by (simp add: ULONG_MAX_def)
      then show ?thesis using Some Number len
        by (simp add: field_ok_def option_values_nth option_string_def strtoul_decimal)
    next
      case (CpuList s)
      then have "d_numeric (descriptors ! j) = 0"
        using well_formed_nth(2) [OF assms(1,3)] Some by (simp add: field_fits_def)
      then show ?thesis using Some len by (simp add: field_ok_def option_values_nth)
    qed
  qed
qed

lemma map_of_root:
  assumes "s < n_sections"
  shows "map_of (map (\<lambda>s. (sections ! s, JMap (canonical_section vs s)))
                  (filter (\<lambda>s. set_fields vs s \<noteq> []) [0..<n_sections])) (sections ! s) =
         (if set_fields vs s \<noteq> [] then Some (JMap (canonical_section vs s)) else None)"
proof -
  have s: "s = 0 \<or> s = 1 \<or> s = 2 \<or> s = 3" using assms by (auto simp add: n_sections_def)
  have upt: "[0..<n_sections] = [0, 1, 2, 3]" by (simp add: n_sections_def upt_rec)
  show ?thesis
    using s by (auto simp add: upt sections_def)
qed

lemma map_of_keyed:
  "filter (\<lambda>x. f x = k) xs = [] \<Longrightarrow> map_of (map (\<lambda>x. (f x, g x)) xs) k = None"
  "filter (\<lambda>x. f x = k) xs = [y] \<Longrightarrow> map_of (map (\<lambda>x. (f x, g x)) xs) k = Some (g y)"
  by (induction xs) (auto split: if_splits)

lemma map_of_section:
  assumes "j < n_values"
  shows "map_of (canonical_section vs (d_section (descriptors ! j))) (d_key (descriptors ! j)) =
         (case vs ! j of None \<Rightarrow> None | Some v \<Rightarrow> Some (render (descriptors ! j) v))"
proof (cases "vs ! j")
  case None
  then have "filter (\<lambda>j'. d_key (descriptors ! j') = d_key (descriptors ! j))
           (set_fields vs (d_section (descriptors ! j))) = []"
    by (simp add: same_key_filter [OF assms])
  from map_of_keyed(1) [OF this, where g = "\<lambda>j. render (descriptors ! j) (the (vs ! j))"]
  show ?thesis
    by (simp add: None canonical_section_def)
next
  case (Some v)
  then have "filter (\<lambda>j'. d_key (descriptors ! j') = d_key (descriptors ! j))
           (set_fields vs (d_section (descriptors ! j))) = [j]"
    by (simp add: same_key_filter [OF assms])
  from map_of_keyed(2) [OF this, where g = "\<lambda>j. render (descriptors ! j) (the (vs ! j))"]
  show ?thesis
    using Some by (simp add: canonical_section_def)
qed

lemma set_fields_nonempty:
  "j < n_values \<Longrightarrow> vs ! j = Some v \<Longrightarrow> set_fields vs (d_section (descriptors ! j)) \<noteq> []"
proof -
  assume "j < n_values" "vs ! j = Some v"
  then have "j \<in> set (set_fields vs (d_section (descriptors ! j)))"
    by (simp add: set_fields_def)
  then show ?thesis by auto
qed

lemma parse_field_canonical:
  assumes "well_formed d" and "below_2_63 d" and "j < n_values"
    and "canonical_document (option_values d) = JMap root"
  shows "parse_field root j = Inr (d ! j)"
proof -
  let ?vs = "option_values d"
  let ?s = "d_section (descriptors ! j)"
  have len: "j < length d" using assms(1,3) by (simp add: well_formed_nth)
  have s: "?s < n_sections" using assms(3) by (rule descriptors_section_lt)
  have root: "root = map (\<lambda>s. (sections ! s, JMap (canonical_section ?vs s)))
                  (filter (\<lambda>s. set_fields ?vs s \<noteq> []) [0..<n_sections])"
    using assms(4) by (simp add: canonical_document_def)
  have sec: "map_of root (sections ! ?s) =
         (if set_fields ?vs ?s \<noteq> [] then Some (JMap (canonical_section ?vs ?s)) else None)"
    unfolding root by (rule map_of_root [OF s])
  note key = map_of_section [OF assms(3), of ?vs]
  show ?thesis
  proof (cases "d ! j")
    case None
    then have "?vs ! j = None" using len by (simp add: option_values_nth)
    then show ?thesis using None sec key
      by (simp add: parse_field_def Let_def)
  next
    case (Some x)
    then have v: "?vs ! j = Some (option_string x)" using len by (simp add: option_values_nth)
    have ne: "set_fields ?vs ?s \<noteq> []" using set_fields_nonempty [OF assms(3) v] .
    show ?thesis
    proof (cases x)
      case (Number n)
      have num: "d_numeric (descriptors ! j) \<noteq> 0"
        using well_formed_nth(2) [OF assms(1,3)] Some Number by (simp add: field_fits_def)
      have n: "n < 9223372036854775808"
        using below_2_63_nth [OF assms(2) len] Some Number by simp
      then have "int n \<le> ULONG_MAX" by (simp add: ULONG_MAX_def)
      then have "render (descriptors ! j) (option_string x) = JInteger (int n)"
        using num Number sint_below_2_63 [OF n]
        by (simp add: render_def option_string_def strtoul_decimal)
      then show ?thesis using Some Number sec key v ne num
        by (simp add: parse_field_def Let_def)
    next
      case (CpuList c)
      have num: "d_numeric (descriptors ! j) = 0"
        using well_formed_nth(2) [OF assms(1,3)] Some CpuList by (simp add: field_fits_def)
      then have "render (descriptors ! j) (option_string x) = JString c"
        using CpuList by (simp add: render_def option_string_def)
      then show ?thesis using Some CpuList sec key v ne num
        by (simp add: parse_field_def Let_def)
    qed
  qed
qed

lemma parse_fields_map:
  "(\<And>j. j \<in> set js \<Longrightarrow> parse_field root j = Inr (f j)) \<Longrightarrow> parse_fields root js = Inr (map f js)"
  by (induction js) simp_all

lemma utf8_ok_option_values:
  assumes "well_formed d" and "utf8_document d"
  shows "utf8_ok (option_values d)"
proof -
  have "printable (option_values d) j" if j: "j < n_values" for j
  proof -
    have len: "j < length d" using assms(1) j by (simp add: well_formed_nth)
    show ?thesis
    proof (cases "d ! j")
      case None
      then show ?thesis using len by (simp add: printable_def option_values_nth)
    next
      case (Some x)
      show ?thesis
      proof (cases x)
        case (Number n)
        then have "d_numeric (descriptors ! j) \<noteq> 0"
          using well_formed_nth(2) [OF assms(1) j] Some by (simp add: field_fits_def)
        then show ?thesis using Some len by (simp add: printable_def option_values_nth)
      next
        case (CpuList s)
        have "d ! j \<in> set d" using len by simp
        then have "yajl_string_validate_utf8 s"
          using assms(2) Some CpuList by (auto simp add: utf8_document_def list_all_iff)
        then show ?thesis using Some CpuList len
          by (simp add: printable_def option_values_nth option_string_def)
      qed
    qed
  qed
  then show ?thesis by (simp add: utf8_ok_def list_all_iff)
qed

lemma read_fields:
  assumes "\<forall>p\<in>set fs'. (\<exists>n. snd p = JInteger n) \<or> (\<exists>s. snd p = JString s)"
  shows "read_tokens (Reader_section ss k fs)
           (concat (map (\<lambda>p. Tok_string (fst p) # json_tokens (snd p)) fs') @ Tok_map_close # ts) =
         read_tokens (Reader_root (ss @ [(k, JMap (fs @ fs'))])) ts"
  using assms
proof (induction fs' arbitrary: fs)
  case Nil
  then show ?case by simp
next
  case (Cons p fs')
  then have rest: "\<forall>p\<in>set fs'. (\<exists>n. snd p = JInteger n) \<or> (\<exists>s. snd p = JString s)"
    and p: "(\<exists>n. snd p = JInteger n) \<or> (\<exists>s. snd p = JString s)"
    by simp_all
  show ?case
    using p Cons.IH [OF rest, of "fs @ [p]"]
    by (cases p) auto
qed

lemma read_sections:
  assumes "\<forall>p\<in>set ss'. \<exists>fs. snd p = JMap fs \<and>
             (\<forall>q\<in>set fs. (\<exists>n. snd q = JInteger n) \<or> (\<exists>s. snd q = JString s))"
  shows "read_tokens (Reader_root ss)
           (concat (map (\<lambda>p. Tok_string (fst p) # json_tokens (snd p)) ss') @ [Tok_map_close]) =
         Some (JMap (ss @ ss'))"
  using assms
proof (induction ss' arbitrary: ss)
  case Nil
  then show ?case by simp
next
  case (Cons p ss')
  then have rest: "\<forall>p\<in>set ss'. \<exists>fs. snd p = JMap fs \<and>
             (\<forall>q\<in>set fs. (\<exists>n. snd q = JInteger n) \<or> (\<exists>s. snd q = JString s))"
    by simp
  from Cons.prems obtain k fs where p: "p = (k, JMap fs)"
    and fs: "\<forall>q\<in>set fs. (\<exists>n. snd q = JInteger n) \<or> (\<exists>s. snd q = JString s)"
    by (cases p) auto
  have "read_tokens (Reader_root ss)
          (concat (map (\<lambda>p. Tok_string (fst p) # json_tokens (snd p)) (p # ss')) @ [Tok_map_close]) =
        read_tokens (Reader_section ss k [])
          (concat (map (\<lambda>p. Tok_string (fst p) # json_tokens (snd p)) fs) @ Tok_map_close #
           (concat (map (\<lambda>p. Tok_string (fst p) # json_tokens (snd p)) ss') @ [Tok_map_close]))"
    by (simp add: p json_tokens_JMap del: json_tokens.simps)
  also have "\<dots> = read_tokens (Reader_root (ss @ [(k, JMap fs)]))
          (concat (map (\<lambda>p. Tok_string (fst p) # json_tokens (snd p)) ss') @ [Tok_map_close])"
    using read_fields [OF fs, of ss k "[]"] by simp
  also have "\<dots> = Some (JMap ((ss @ [(k, JMap fs)]) @ ss'))"
    by (rule Cons.IH [OF rest])
  finally show ?case by (simp add: p)
qed

lemma read_canonical:
  "read_tokens Reader_start (json_tokens (canonical_document vs)) = Some (canonical_document vs)"
proof -
  have atoms: "\<forall>p\<in>set (map (\<lambda>s. (sections ! s, JMap (canonical_section vs s)))
                  (filter (\<lambda>s. set_fields vs s \<noteq> []) [0..<n_sections])).
                \<exists>fs. snd p = JMap fs \<and>
                  (\<forall>q\<in>set fs. (\<exists>n. snd q = JInteger n) \<or> (\<exists>s. snd q = JString s))"
    by (auto simp add: canonical_section_def render_def)
  show ?thesis
    unfolding canonical_document_def json_tokens_JMap [of "map _ _"]
    using read_sections [OF atoms, of "[]"] by simp
qed

lemma roundtrip:
  assumes "well_formed d" and "utf8_document d" and "below_2_63 d"
  shows "\<exists>doc. serialize d = Inr doc \<and> parse doc = Inr d"
proof -
  let ?vs = "option_values d"
  obtain root where root: "canonical_document ?vs = JMap root"
    by (simp add: canonical_document_def)
  have ok: "\<forall>j<n_values. field_ok ?vs j"
    using field_ok_option_values [OF assms(1,3)] by simp
  have u: "utf8_ok ?vs" using assms(1,2) by (rule utf8_ok_option_values)
  have ser: "serialize d = Inr (json_tokens (canonical_document ?vs))"
    using build_file_canonical [OF u ok] by (simp add: serialize_def)
  have "parse_fields root [0..<n_values] = Inr (map (\<lambda>j. d ! j) [0..<n_values])"
    by (rule parse_fields_map) (simp add: parse_field_canonical [OF assms(1,3) _ root])
  moreover have "map (\<lambda>j. d ! j) [0..<n_values] = d"
    using map_nth [of d] by (simp add: well_formed_nth(1) [OF assms(1)])
  moreover have "read_tokens Reader_start (json_tokens (canonical_document ?vs)) = Some (JMap root)"
    using read_canonical [of ?vs] by (simp only: root)
  ultimately have "parse (json_tokens (canonical_document ?vs)) = Inr d"
    by (simp add: parse_def del: json_tokens.simps)
  with ser show ?thesis by blast
qed

lemma serialize_out_of_range:
  assumes "well_formed d" and "above_ULONG_MAX d"
  shows "serialize d = Inl (Failure ERANGE ''invalid setting'')"
proof -
  from assms(2) obtain x where x: "x \<in> set d"
    and px: "case x of Some (Number n) \<Rightarrow> 18446744073709551615 < n | _ \<Rightarrow> False"
    by (auto simp add: above_ULONG_MAX_def list_ex_iff)
  from px obtain n where xn: "x = Some (Number n)" and n: "18446744073709551615 < n"
    by (cases x; cases "the x") auto
  from x obtain j where j: "j < length d" and "d ! j = x"
    by (auto simp add: in_set_conv_nth)
  then have dj: "d ! j = Some (Number n)" using xn by simp
  have jn: "j < n_values" using j assms(1) by (simp add: well_formed_nth)
  have num: "d_numeric (descriptors ! j) \<noteq> 0"
    using well_formed_nth(2) [OF assms(1) jn] dj by (simp add: field_fits_def)
  have v: "option_values d ! j = Some (decimal n)"
    using j dj by (simp add: option_values_nth option_string_def)
  have "\<not> int n \<le> ULONG_MAX" using n by (simp add: ULONG_MAX_def)
  then have e: "snd (strtoul (decimal n)) \<noteq> 0"
    by (simp add: strtoul_decimal ERANGE_def)
  show ?thesis
    unfolding serialize_def by (rule out_of_range_exits [OF jn v num e])
qed

lemma well_formed_examples: "well_formed doc_small" "well_formed doc_too_big"
  by (simp_all add: well_formed_def doc_small_def doc_too_big_def descriptors_def descr_def
      field_fits_def)

text \<open>
  Claim C2, as amended. For every Document built from option-representable fields
  whose cpuset lists are valid UTF-8 and whose numbers all lie below \<open>2 ^ 63\<close>, the
  serialization succeeds and parsing it gives the Document back. A Document with a
  number above \<open>ULONG_MAX\<close> is not serialized: the run ends in the exit
  \<open>invalid setting\<close>.
\<close>

theorem roundtrip_in_range:
  assumes "well_formed d"
  shows "(utf8_document d \<and> below_2_63 d \<longrightarrow> (\<exists>doc. serialize d = Inr doc \<and> parse doc = Inr d))
         \<and> (above_ULONG_MAX d \<longrightarrow> serialize d = Inl (Failure ERANGE ''invalid setting''))"
  using roundtrip [OF assms] serialize_out_of_range [OF assms] by blast

theorem roundtrip_in_range_witness:
  "well_formed doc_small \<and> utf8_document doc_small \<and> below_2_63 doc_small
   \<and> (\<exists>doc. serialize doc_small = Inr doc \<and> parse doc = Inr doc_small)
   \<and> well_formed doc_too_big \<and> above_ULONG_MAX doc_too_big
   \<and> serialize doc_too_big = Inl (Failure ERANGE ''invalid setting'')"
proof -
  have a: "below_2_63 doc_small" by (simp add: below_2_63_def doc_small_def)
  have u: "utf8_document doc_small" by (simp add: utf8_document_def doc_small_def)
  have b: "above_ULONG_MAX doc_too_big" by (simp add: above_ULONG_MAX_def doc_too_big_def)
  show ?thesis
    using a u b well_formed_examples
      roundtrip_in_range [OF well_formed_examples(1)]
      roundtrip_in_range [OF well_formed_examples(2)]
    by blast
qed

text \<open>
  Claim C2 as stated fails: the Document whose memory limit is \<open>2 ^ 64\<close> is built
  from an option-representable field, and its serialization is the exit
  \<open>invalid setting\<close>, so there is nothing to parse back.
\<close>

theorem document_too_big_not_serialized:
  "well_formed doc_too_big \<and> serialize doc_too_big = Inl (Failure ERANGE ''invalid setting'')"
proof -
  have "above_ULONG_MAX doc_too_big" by (simp add: above_ULONG_MAX_def doc_too_big_def)
  then show ?thesis
    using well_formed_examples(2) serialize_out_of_range by blast
qed

subsection \<open>Digit strings\<close>

text \<open>
  What does hold of numeric values: a value that is a nonempty string of decimal
  digits denoting a number below \<open>2 ^ 63\<close> is emitted as that number.
\<close>

lemma digits_val_nonneg: "list_all isdigit ds \<Longrightarrow> 0 \<le> digits_val ds"
proof (induction ds rule: rev_induct)
  case Nil
  then show ?case by (simp add: digits_val_def)
next
  case (snoc c ds)
  then have "0 \<le> digits_val ds" and "isdigit c" by simp_all
  then show ?case by (simp add: digits_val_snoc digit_val_def isdigit_def)
qed

lemma strtoul_digits:
  assumes "ds \<noteq> []" and "list_all isdigit ds"
  shows "strtoul ds =
     (if digits_val ds \<le> ULONG_MAX then (word_of_int (digits_val ds), 0)
      else (word_of_int ULONG_MAX, ERANGE))"
proof -
  from assms obtain c cs where cs: "ds = c # cs" by (cases ds) auto
  from assms cs have c: "isdigit c" by simp
  have dw: "dropWhile isspace ds = ds"
    using isdigit_not_space [OF c] by (simp add: cs)
  have ss: "strip_sign ds = (False, ds)"
    using isdigit_not_space [OF c] by (simp add: cs strip_sign_def)
  have tw: "takeWhile isdigit ds = ds"
    using assms(2) by (simp add: list_all_iff takeWhile_eq_all_conv)
  show ?thesis
    using assms(1) by (simp add: strtoul_def dw ss tw Let_def)
qed

lemma digits_below_2_63_emitted:
  assumes "ds \<noteq> []" and "list_all isdigit ds" and "digits_val ds < 9223372036854775808"
    and "d_numeric d \<noteq> 0"
  shows "render d ds = JInteger (digits_val ds)"
proof -
  have nn: "0 \<le> digits_val ds" using assms(2) by (rule digits_val_nonneg)
  have "signed_take_bit 63 (digits_val ds) = digits_val ds"
    using nn assms(3) by (intro signed_take_bit_int_eq_self) simp_all
  moreover have "sint (word_of_int (digits_val ds) :: 64 word) =
                 signed_take_bit (LENGTH(64) - 1) (digits_val ds)"
    by (rule sint_sbintrunc')
  ultimately have "sint (word_of_int (digits_val ds) :: 64 word) = digits_val ds" by simp
  moreover have "digits_val ds \<le> ULONG_MAX" using assms(3) by (simp add: ULONG_MAX_def)
  ultimately show ?thesis
    using assms(4) by (simp add: render_def strtoul_digits [OF assms(1,2)])
qed

end
